theory Spec2Isabelle
  imports Complex_Main "HOL-Library.AList" "HOL-Library.Sublist"
begin

section \<open>Numbers and geographic primitives\<close>

text \<open>
  A JavaScript \<^verbatim>\<open>number\<close> is modelled as a real. \<^verbatim>\<open>Infinity\<close>, which the code uses as
  the start value of a running minimum and as the travel time of the transit profile, is
  a value of its own; only the two operations the code applies to it are defined.
  In the trail projector, where the result depends on how sums and products are rounded,
  the arithmetic is a parameter (see \<open>arith\<close> below).
\<close>

datatype xreal = Fin real | PInf

fun xplus :: "xreal \<Rightarrow> real \<Rightarrow> xreal" where
  "xplus (Fin a) b = Fin (a + b)"
| "xplus PInf b = PInf"

fun xless :: "xreal \<Rightarrow> xreal \<Rightarrow> bool" where
  "xless (Fin a) (Fin b) = (a < b)"
| "xless (Fin a) PInf = True"
| "xless PInf y = False"

text \<open>\<^verbatim>\<open>Math.round\<close>: the nearest integer, halves rounded up.\<close>

definition js_round :: "real \<Rightarrow> int" where
  "js_round x = \<lfloor>x + 1 / 2\<rfloor>"

record LatLng =
  lat :: real
  lng :: real

text \<open>A GeoJSON position is the pair (longitude, latitude); a line string is a list of them.\<close>

type_synonym Position = "real \<times> real"
type_synonym LineString = "Position list"

text \<open>
  The map and geometry libraries are not part of the repository. The three functions the
  code calls are parameters of the model: \<^verbatim>\<open>LatLng.distanceTo\<close> (metres between two
  points), \<^verbatim>\<open>lineIntersect\<close> (the coordinates of the intersection features of two line
  strings) and \<^verbatim>\<open>distance\<close> with \<^verbatim>\<open>units: 'meters'\<close>.
\<close>

record geoLib =
  distanceTo :: "LatLng \<Rightarrow> LatLng \<Rightarrow> real"
  lineIntersect :: "LineString \<Rightarrow> LineString \<Rightarrow> Position list"
  turfDistance :: "Position \<Rightarrow> Position \<Rightarrow> real"

text \<open>
  A \<^verbatim>\<open>Map<number, LatLng>\<close> is an association list in insertion order;
  \<^verbatim>\<open>Map.set\<close> is \<^const>\<open>AList.update\<close>, which replaces the value of a key already
  present and appends a new key at the end.
\<close>

type_synonym markers = "(real \<times> LatLng) list"

section \<open>Pace parser (utils.ts)\<close>

text \<open>
  \<^verbatim>\<open>String.split(':')\<close> and \<^verbatim>\<open>parseInt(s, 10)\<close> are built into the language:
  \<^verbatim>\<open>split\<close> always returns at least one part; \<^verbatim>\<open>parseInt\<close> skips leading white space,
  reads an optional sign and then the longest run of decimal digits, ignores whatever
  follows, and yields \<^verbatim>\<open>NaN\<close> (here \<open>None\<close>) when there is no digit. Characters are
  code units below 256. The value is the integer the digits denote. The language's number
  is that integer for runs of up to 15 digits; it rounds longer runs, which this model
  does not describe, and nothing below is stated about them.
\<close>

definition isWhiteSpace :: "char \<Rightarrow> bool" where
  "isWhiteSpace c = ((of_char c :: nat) \<in> {9, 10, 11, 12, 13, 32, 160})"

definition isDigit :: "char \<Rightarrow> bool" where
  "isDigit c = (48 \<le> (of_char c :: nat) \<and> (of_char c :: nat) \<le> 57)"

definition digitsValue :: "string \<Rightarrow> nat" where
  "digitsValue ds = foldl (\<lambda>acc c. acc * 10 + (of_char c - 48)) 0 ds"

fun split_colon :: "string \<Rightarrow> string list" where
  "split_colon [] = [[]]"
| "split_colon (c # cs) =
     (if c = CHR '':'' then [] # split_colon cs
      else (case split_colon cs of p # ps \<Rightarrow> (c # p) # ps | [] \<Rightarrow> [[c]]))"

definition parseInt :: "string \<Rightarrow> int option" where
  "parseInt s =
     (let t = dropWhile isWhiteSpace s;
          neg = (t \<noteq> [] \<and> hd t = CHR ''-'');
          u = (if t \<noteq> [] \<and> (hd t = CHR ''-'' \<or> hd t = CHR ''+'') then tl t else t);
          ds = takeWhile isDigit u
      in if ds = [] then None
         else Some (if neg then - int (digitsValue ds) else int (digitsValue ds)))"

definition parsePaceToSecondsPerMeter :: "string \<Rightarrow> real option" where
  "parsePaceToSecondsPerMeter pace =
     (let parts = split_colon pace in
      if length parts \<noteq> 2 then None
      else (case parseInt (parts ! 0) of
              None \<Rightarrow> None
            | Some minutes \<Rightarrow>
               (case parseInt (parts ! 1) of
                  None \<Rightarrow> None
                | Some seconds \<Rightarrow>
                    (let totalSecondsPerKm = minutes * 60 + seconds in
                     if totalSecondsPerKm \<le> 0 then None
                     else Some (real_of_int totalSecondsPerKm / 1000)))))"

section \<open>Course indexer (MapComponent, candidate spot generation)\<close>

definition POTENTIAL_SPOT_INTERVAL :: real where
  "POTENTIAL_SPOT_INTERVAL = 50"

text \<open>
  The array \<^verbatim>\<open>cumulativeDistances\<close>: \<^verbatim>\<open>[0]\<close>, then one running total per further point.
\<close>

fun cumulativeFrom :: "geoLib \<Rightarrow> real \<Rightarrow> LatLng list \<Rightarrow> real list" where
  "cumulativeFrom lib totalDist (p # q # rest) =
     (totalDist + distanceTo lib p q) # cumulativeFrom lib (totalDist + distanceTo lib p q) (q # rest)"
| "cumulativeFrom lib totalDist ps = []"

definition cumulativeDistanceTable :: "geoLib \<Rightarrow> LatLng list \<Rightarrow> real list" where
  "cumulativeDistanceTable lib points = 0 # cumulativeFrom lib 0 points"

text \<open>
  The interpolation divides by the segment length. A division by zero would give a
  position with undefined coordinates; the model reports it as an error value, so that
  its absence is a property to prove.
\<close>

datatype indexError = DivisionByZero

text \<open>The inner \<^verbatim>\<open>while\<close> loop that places the candidates of one segment.\<close>

function placeSpots ::
  "LatLng \<Rightarrow> LatLng \<Rightarrow> real \<Rightarrow> real \<Rightarrow> real \<Rightarrow> markers \<Rightarrow> indexError + (real \<times> markers)" where
  "placeSpots prevPoint currentPoint segmentDistance totalDistance nextPotentialSpotDist newMarkerPositions =
     (if totalDistance + segmentDistance \<ge> nextPotentialSpotDist then
        (if segmentDistance = 0 then Inl DivisionByZero
         else
           (let distanceToSpot = nextPotentialSpotDist - totalDistance;
                ratio = distanceToSpot / segmentDistance;
                spotLat = lat prevPoint + (lat currentPoint - lat prevPoint) * ratio;
                spotLng = lng prevPoint + (lng currentPoint - lng prevPoint) * ratio;
                spotPosition = \<lparr>lat = spotLat, lng = spotLng\<rparr>
            in placeSpots prevPoint currentPoint segmentDistance totalDistance
                 (nextPotentialSpotDist + POTENTIAL_SPOT_INTERVAL)
                 (AList.update nextPotentialSpotDist spotPosition newMarkerPositions)))
      else Inr (nextPotentialSpotDist, newMarkerPositions))"
  by pat_completeness auto
termination
proof (relation "measure (\<lambda>(p, c, seg, total, next, m). nat (\<lfloor>(total + seg - next) / 50\<rfloor> + 1))")
  fix prevPoint currentPoint :: LatLng
  fix segmentDistance totalDistance nextPotentialSpotDist :: real
  fix newMarkerPositions :: markers and spotPosition :: LatLng
  assume reached: "nextPotentialSpotDist \<le> totalDistance + segmentDistance"
  let ?x = "(totalDistance + segmentDistance - nextPotentialSpotDist) / 50"
  have shift: "(totalDistance + segmentDistance - (nextPotentialSpotDist + POTENTIAL_SPOT_INTERVAL)) / 50
                 = ?x - 1"
    by (simp add: POTENTIAL_SPOT_INTERVAL_def field_simps)
  have "0 \<le> ?x" using reached by simp
  then have "0 \<le> \<lfloor>?x\<rfloor>" by simp
  then have "nat (\<lfloor>?x - 1\<rfloor> + 1) < nat (\<lfloor>?x\<rfloor> + 1)" by simp
  then show "((prevPoint, currentPoint, segmentDistance, totalDistance,
               nextPotentialSpotDist + POTENTIAL_SPOT_INTERVAL,
               AList.update nextPotentialSpotDist spotPosition newMarkerPositions),
              (prevPoint, currentPoint, segmentDistance, totalDistance,
               nextPotentialSpotDist, newMarkerPositions))
             \<in> measure (\<lambda>(p, c, seg, total, next, m). nat (\<lfloor>(total + seg - next) / 50\<rfloor> + 1))"
    by (simp add: shift)
qed simp

text \<open>The second inner loop, for the 5 km markers, has the same shape.\<close>

function placeFiveKm ::
  "LatLng \<Rightarrow> LatLng \<Rightarrow> real \<Rightarrow> real \<Rightarrow> real \<Rightarrow> markers \<Rightarrow> indexError + (real \<times> markers)" where
  "placeFiveKm prevPoint currentPoint segmentDistance totalDistance nextFiveKmMark fiveKmMarkerPositions =
     (if totalDistance + segmentDistance \<ge> nextFiveKmMark then
        (if segmentDistance = 0 then Inl DivisionByZero
         else
           (let distanceTo5kMark = nextFiveKmMark - totalDistance;
                ratio5k = distanceTo5kMark / segmentDistance;
                spotLat5k = lat prevPoint + (lat currentPoint - lat prevPoint) * ratio5k;
                spotLng5k = lng prevPoint + (lng currentPoint - lng prevPoint) * ratio5k;
                spotPosition5k = \<lparr>lat = spotLat5k, lng = spotLng5k\<rparr>
            in placeFiveKm prevPoint currentPoint segmentDistance totalDistance
                 (nextFiveKmMark + 5000)
                 (AList.update nextFiveKmMark spotPosition5k fiveKmMarkerPositions)))
      else Inr (nextFiveKmMark, fiveKmMarkerPositions))"
  by pat_completeness auto
termination
proof (relation "measure (\<lambda>(p, c, seg, total, next, m). nat (\<lfloor>(total + seg - next) / 5000\<rfloor> + 1))")
  fix prevPoint currentPoint :: LatLng
  fix segmentDistance totalDistance nextFiveKmMark :: real
  fix fiveKmMarkerPositions :: markers and spotPosition5k :: LatLng
  assume reached: "nextFiveKmMark \<le> totalDistance + segmentDistance"
  let ?x = "(totalDistance + segmentDistance - nextFiveKmMark) / 5000"
  have shift: "(totalDistance + segmentDistance - (nextFiveKmMark + 5000)) / 5000 = ?x - 1"
    by (simp add: field_simps)
  have "0 \<le> ?x" using reached by simp
  then have "0 \<le> \<lfloor>?x\<rfloor>" by simp
  then have "nat (\<lfloor>?x - 1\<rfloor> + 1) < nat (\<lfloor>?x\<rfloor> + 1)" by simp
  then show "((prevPoint, currentPoint, segmentDistance, totalDistance,
               nextFiveKmMark + 5000,
               AList.update nextFiveKmMark spotPosition5k fiveKmMarkerPositions),
              (prevPoint, currentPoint, segmentDistance, totalDistance,
               nextFiveKmMark, fiveKmMarkerPositions))
             \<in> measure (\<lambda>(p, c, seg, total, next, m). nat (\<lfloor>(total + seg - next) / 5000\<rfloor> + 1))"
    by (simp add: shift)
qed simp

text \<open>The \<^verbatim>\<open>for\<close> loop over consecutive points, with its five loop variables.\<close>

fun spotLoop ::
  "geoLib \<Rightarrow> LatLng list \<Rightarrow> real \<Rightarrow> real \<Rightarrow> real \<Rightarrow> markers \<Rightarrow> markers
     \<Rightarrow> indexError + (real \<times> markers \<times> markers)" where
  "spotLoop lib (prevPoint # currentPoint # rest) totalDistance nextPotentialSpotDist nextFiveKmMark
       newMarkerPositions fiveKmMarkerPositions =
     (let segmentDistance = distanceTo lib prevPoint currentPoint in
      case placeSpots prevPoint currentPoint segmentDistance totalDistance nextPotentialSpotDist
             newMarkerPositions of
        Inl e \<Rightarrow> Inl e
      | Inr (nextSpot, markers1) \<Rightarrow>
          (case placeFiveKm prevPoint currentPoint segmentDistance totalDistance nextFiveKmMark
                  fiveKmMarkerPositions of
             Inl e \<Rightarrow> Inl e
           | Inr (nextMark, markers5) \<Rightarrow>
               spotLoop lib (currentPoint # rest) (totalDistance + segmentDistance) nextSpot nextMark
                 markers1 markers5))"
| "spotLoop lib ps totalDistance nextPotentialSpotDist nextFiveKmMark
       newMarkerPositions fiveKmMarkerPositions =
     Inr (totalDistance, newMarkerPositions, fiveKmMarkerPositions)"

text \<open>
  The candidate positions reported to the application: \<open>None\<close> when the track has fewer
  than two points (nothing is reported), otherwise the regular candidates and, set last,
  the finish.
\<close>

definition calculateMarkerPositions :: "geoLib \<Rightarrow> LatLng list \<Rightarrow> indexError + markers option" where
  "calculateMarkerPositions lib points =
     (if length points > 1 then
        (let finishLatLng = last points in
         case spotLoop lib points 0 POTENTIAL_SPOT_INTERVAL 5000 [] [] of
           Inl e \<Rightarrow> Inl e
         | Inr (totalTrackDistance, newMarkerPositions, fiveKmMarkerPositions) \<Rightarrow>
             Inr (Some (AList.update totalTrackDistance finishLatLng newMarkerPositions)))
      else Inr None)"

section \<open>Trail projector (findNearestPointOnTrail, calculateDistanceAlongTrail)\<close>

text \<open>
  The projector compares computed distances with each other and with 0, so its result
  depends on the rounding of the machine's arithmetic. The four operations and the value
  of the literal \<^verbatim>\<open>1e-12\<close> are therefore parameters. A number is still a real (every
  finite machine number is one); the operations are any functions that agree with the
  machine's on the numbers it can represent. Comparisons, \<^verbatim>\<open>Math.max\<close> and
  \<^verbatim>\<open>Math.min\<close> are exact.
\<close>

record arith =
  fadd :: "real \<Rightarrow> real \<Rightarrow> real"
  fsub :: "real \<Rightarrow> real \<Rightarrow> real"
  fmul :: "real \<Rightarrow> real \<Rightarrow> real"
  fdiv :: "real \<Rightarrow> real \<Rightarrow> real"
  tiny :: real

text \<open>
  What the proofs use of the arithmetic: the cases in which floating-point arithmetic on
  finite numbers is exact whatever the rounding (\<open>x - x\<close>, \<open>x + 0\<close>, \<open>0 + x\<close>, \<open>0 * y\<close>,
  \<open>1 * y\<close>, \<open>x / x\<close> and \<open>0 / x\<close> for \<open>x\<close> other than 0), and that the literal is positive.
\<close>

definition exactIdentities :: "arith \<Rightarrow> bool" where
  "exactIdentities ar =
     ((\<forall>x. fsub ar x x = 0) \<and> (\<forall>x. fadd ar x 0 = x) \<and> (\<forall>x. fadd ar 0 x = x)
      \<and> (\<forall>y. fmul ar 0 y = 0) \<and> (\<forall>y. fmul ar 1 y = y)
      \<and> (\<forall>x. x \<noteq> 0 \<longrightarrow> fdiv ar x x = 1) \<and> (\<forall>x. x \<noteq> 0 \<longrightarrow> fdiv ar 0 x = 0)
      \<and> 0 < tiny ar)"

text \<open>
  The array \<^verbatim>\<open>cumulativeDistances\<close> as the projector receives it: the same running
  totals as \<^const>\<open>cumulativeDistanceTable\<close>, added with the arithmetic given.
\<close>

fun cumulativeSums :: "arith \<Rightarrow> geoLib \<Rightarrow> real \<Rightarrow> LatLng list \<Rightarrow> real list" where
  "cumulativeSums ar lib totalDist (p # q # rest) =
     fadd ar totalDist (distanceTo lib p q)
       # cumulativeSums ar lib (fadd ar totalDist (distanceTo lib p q)) (q # rest)"
| "cumulativeSums ar lib totalDist ps = []"

definition trailCumulativeDistances :: "arith \<Rightarrow> geoLib \<Rightarrow> LatLng list \<Rightarrow> real list" where
  "trailCumulativeDistances ar lib points = 0 # cumulativeSums ar lib 0 points"

text \<open>
  The four loop variables of \<^verbatim>\<open>findNearestPointOnTrail\<close>; the function returns them as
  the fields \<^verbatim>\<open>distance\<close>, \<^verbatim>\<open>point\<close>, \<^verbatim>\<open>segmentIndex\<close> and \<^verbatim>\<open>ratio\<close>.
  \<^verbatim>\<open>trailPoints[0]\<close> of an empty trail is undefined (\<open>None\<close>).
\<close>

record nearest =
  minDistance :: xreal
  closestPoint :: "LatLng option"
  closestSegmentIndex :: nat
  closestRatio :: real

text \<open>One pass of the loop body, for the segment that starts at index \<open>i\<close>.\<close>

definition nearestStep ::
  "arith \<Rightarrow> geoLib \<Rightarrow> LatLng \<Rightarrow> LatLng list \<Rightarrow> nearest \<Rightarrow> nat \<Rightarrow> nearest" where
  "nearestStep ar lib latlng trailPoints best i =
     (let p1 = trailPoints ! i;
          p2 = trailPoints ! (i + 1);
          segmentLength = distanceTo lib p1 p2
      in if segmentLength = 0 then best
         else
           (let vx = fsub ar (lng p2) (lng p1);
                vy = fsub ar (lat p2) (lat p1);
                wx = fsub ar (lng latlng) (lng p1);
                wy = fsub ar (lat latlng) (lat p1);
                dot_wv = fadd ar (fmul ar wx vx) (fmul ar wy vy);
                dot_vv = fadd ar (fmul ar vx vx) (fmul ar vy vy);
                t = (if dot_vv < tiny ar then 0 else fdiv ar dot_wv dot_vv);
                ratio = max 0 (min 1 t);
                pointOnSegment = \<lparr>lat = fadd ar (lat p1) (fmul ar ratio vy),
                                  lng = fadd ar (lng p1) (fmul ar ratio vx)\<rparr>;
                distance = distanceTo lib latlng pointOnSegment
            in if xless (Fin distance) (minDistance best)
               then \<lparr>minDistance = Fin distance, closestPoint = Some pointOnSegment,
                      closestSegmentIndex = i, closestRatio = ratio\<rparr>
               else best))"

definition findNearestPointOnTrail :: "arith \<Rightarrow> geoLib \<Rightarrow> LatLng \<Rightarrow> LatLng list \<Rightarrow> nearest" where
  "findNearestPointOnTrail ar lib latlng trailPoints =
     foldl (nearestStep ar lib latlng trailPoints)
       \<lparr>minDistance = PInf,
        closestPoint = (if trailPoints = [] then None else Some (trailPoints ! 0)),
        closestSegmentIndex = 0, closestRatio = 0\<rparr>
       [0..<length trailPoints - 1]"

text \<open>
  Reading a table or the trail out of range gives \<^verbatim>\<open>undefined\<close> and no distance: \<open>None\<close>.
\<close>

definition calculateDistanceAlongTrail ::
  "arith \<Rightarrow> geoLib \<Rightarrow> nat \<Rightarrow> real \<Rightarrow> LatLng list \<Rightarrow> real list \<Rightarrow> real option" where
  "calculateDistanceAlongTrail ar lib segmentIndex ratio trailPoints cumulativeDistances =
     (if segmentIndex < length cumulativeDistances \<and> segmentIndex + 1 < length trailPoints then
        (let baseDistance = cumulativeDistances ! segmentIndex;
             p1 = trailPoints ! segmentIndex;
             p2 = trailPoints ! (segmentIndex + 1);
             segmentLength = distanceTo lib p1 p2
         in Some (fadd ar baseDistance (fmul ar ratio segmentLength)))
      else None)"

text \<open>
  For stating what the projector finds: the clamped projection ratio the loop body
  computes for a query point on the segment from \<open>p1\<close> to \<open>p2\<close>, and whether segment \<open>i\<close>
  of the trail touches the query point, that is, the loop does not skip it and the point
  it computes on it is at distance 0 from the query point.
\<close>

definition projectionRatio :: "arith \<Rightarrow> LatLng \<Rightarrow> LatLng \<Rightarrow> LatLng \<Rightarrow> real" where
  "projectionRatio ar latlng p1 p2 =
     (let vx = fsub ar (lng p2) (lng p1);
          vy = fsub ar (lat p2) (lat p1);
          wx = fsub ar (lng latlng) (lng p1);
          wy = fsub ar (lat latlng) (lat p1);
          dot_wv = fadd ar (fmul ar wx vx) (fmul ar wy vy);
          dot_vv = fadd ar (fmul ar vx vx) (fmul ar vy vy)
      in max 0 (min 1 (if dot_vv < tiny ar then 0 else fdiv ar dot_wv dot_vv)))"

definition segmentTouches :: "arith \<Rightarrow> geoLib \<Rightarrow> LatLng \<Rightarrow> LatLng list \<Rightarrow> nat \<Rightarrow> bool" where
  "segmentTouches ar lib latlng trailPoints i =
     (let p1 = trailPoints ! i;
          p2 = trailPoints ! (i + 1);
          ratio = projectionRatio ar latlng p1 p2
      in distanceTo lib p1 p2 \<noteq> 0
         \<and> distanceTo lib latlng
              \<lparr>lat = fadd ar (lat p1) (fmul ar ratio (fsub ar (lat p2) (lat p1))),
               lng = fadd ar (lng p1) (fmul ar ratio (fsub ar (lng p2) (lng p1)))\<rparr> = 0)"

section \<open>Spot selector (App, handleSuggestSpots)\<close>

datatype TravelProfile = walking | cycling | transit

datatype SuggestionStrategy = maxSpread | minTravel

definition AVG_WALKING_SPEED_MPS :: real where
  "AVG_WALKING_SPEED_MPS = 14 / 10"

definition AVG_CYCLING_SPEED_MPS :: real where
  "AVG_CYCLING_SPEED_MPS = 55 / 10"

definition SPECTATOR_BUFFER_SECONDS :: real where
  "SPECTATOR_BUFFER_SECONDS = 60 * 10"

definition COURSE_CROSSING_PENALTY_SECONDS :: real where
  "COURSE_CROSSING_PENALTY_SECONDS = 60 * 5"

text \<open>
  The state the handler reads and writes. The number of spots is an integer: the sidebar
  stores only what \<^verbatim>\<open>parseInt\<close> returned. \<open>alerts\<close> collects the messages shown to the
  user.
\<close>

record appState =
  runnerPace :: string
  selectedSpots :: "real set"
  markerPositions :: markers
  travelProfile :: TravelProfile
  gpxCourseLine :: "LineString option"
  numSpotsToSuggest :: int
  suggestionStrategy :: SuggestionStrategy
  skipFirstKm :: real
  alerts :: "string list"

text \<open>The markers left after the skip filter, sorted by distance.\<close>

definition potentiallyAvailableMarkers :: "appState \<Rightarrow> (real \<times> LatLng) list" where
  "potentiallyAvailableMarkers s =
     (let skipDistance = skipFirstKm s * 1000;
          allMarkerEntries = markerPositions s
      in sort_key fst (filter (\<lambda>(distance, _). distance \<ge> skipDistance) allMarkerEntries))"

definition maxSpreadDistances :: "(real \<times> LatLng) list \<Rightarrow> int \<Rightarrow> real list" where
  "maxSpreadDistances availableMarkerEntries numToSelect =
     (if numToSelect = 1 \<and> length availableMarkerEntries > 0 then
        [fst (availableMarkerEntries ! (length availableMarkerEntries - 1))]
      else if numToSelect > 1 \<and> length availableMarkerEntries > 1 then
        (let step = (real (length availableMarkerEntries) - 1) / (real_of_int numToSelect - 1) in
         map (\<lambda>i. let index = js_round (real i * step);
                      safeIndex = max 0 (min index (int (length availableMarkerEntries) - 1))
                  in fst (availableMarkerEntries ! nat safeIndex))
           [0..<nat numToSelect])
      else [])"

text \<open>The loop over the intersection features, with its \<^verbatim>\<open>break\<close>.\<close>

fun trueIntersection :: "geoLib \<Rightarrow> Position \<Rightarrow> Position \<Rightarrow> Position list \<Rightarrow> bool" where
  "trueIntersection lib startPt endPt [] = False"
| "trueIntersection lib startPt endPt (intersectPt # features) =
     (let distToStart = turfDistance lib startPt intersectPt;
          distToEnd = turfDistance lib endPt intersectPt
      in if distToStart > 10 \<and> distToEnd > 10 then True
         else trueIntersection lib startPt endPt features)"

text \<open>Whether the straight path between two spots truly crosses the course.\<close>

definition courseCrossing :: "geoLib \<Rightarrow> LineString \<Rightarrow> LatLng \<Rightarrow> LatLng \<Rightarrow> bool" where
  "courseCrossing lib courseLine lastSpotLatLng potentialNextLatLng =
     (let spectatorPathLine = [(lng lastSpotLatLng, lat lastSpotLatLng),
                               (lng potentialNextLatLng, lat potentialNextLatLng)];
          intersections = lineIntersect lib courseLine spectatorPathLine
      in if length intersections > 0 then
           (let startPt = (lng lastSpotLatLng, lat lastSpotLatLng);
                endPt = (lng potentialNextLatLng, lat potentialNextLatLng)
            in trueIntersection lib startPt endPt intersections)
         else False)"

definition spectatorTime :: "TravelProfile \<Rightarrow> real \<Rightarrow> xreal" where
  "spectatorTime profile straightLineDist =
     (if profile = walking \<or> profile = cycling then
        (let speedMps = (if profile = walking then AVG_WALKING_SPEED_MPS else AVG_CYCLING_SPEED_MPS)
         in Fin (straightLineDist / speedMps))
      else PInf)"

text \<open>The value of \<^verbatim>\<open>isFeasible\<close> for one candidate, seen from the last selected spot.\<close>

definition isFeasible ::
  "geoLib \<Rightarrow> LineString \<Rightarrow> real \<Rightarrow> TravelProfile \<Rightarrow> real \<Rightarrow> LatLng \<Rightarrow> real \<times> LatLng \<Rightarrow> bool" where
  "isFeasible lib courseLine runnerSecondsPerMeter profile lastSpotDistance lastSpotLatLng entry =
     (let potentialNextDistance = fst entry;
          potentialNextLatLng = snd entry;
          straightLineDist = distanceTo lib lastSpotLatLng potentialNextLatLng;
          courseDistanceBetweenSpots = potentialNextDistance - lastSpotDistance;
          runnerTimeSeconds = courseDistanceBetweenSpots * runnerSecondsPerMeter;
          spectatorTimeSeconds = spectatorTime profile straightLineDist;
          crossingPenalty =
            (if courseCrossing lib courseLine lastSpotLatLng potentialNextLatLng
             then COURSE_CROSSING_PENALTY_SECONDS else 0)
      in xless (xplus (xplus spectatorTimeSeconds crossingPenalty) SPECTATOR_BUFFER_SECONDS)
           (Fin runnerTimeSeconds))"

text \<open>
  One pass of the \<^verbatim>\<open>for\<close> loop over the candidates; the accumulator is
  \<^verbatim>\<open>bestNextSpotIndex\<close> (\<open>None\<close> for \<open>-1\<close>) and \<^verbatim>\<open>minFeasibleStraightLineDist\<close>.
\<close>

definition considerSpot ::
  "geoLib \<Rightarrow> LineString \<Rightarrow> real \<Rightarrow> TravelProfile \<Rightarrow> (real \<times> LatLng) list \<Rightarrow> nat set
     \<Rightarrow> real \<Rightarrow> LatLng \<Rightarrow> nat option \<times> xreal \<Rightarrow> nat \<Rightarrow> nat option \<times> xreal" where
  "considerSpot lib courseLine runnerSecondsPerMeter profile availableMarkerEntries usedIndices
       lastSpotDistance lastSpotLatLng acc i =
     (if i \<in> usedIndices then acc
      else
        (let straightLineDist = distanceTo lib lastSpotLatLng (snd (availableMarkerEntries ! i)) in
         if isFeasible lib courseLine runnerSecondsPerMeter profile lastSpotDistance lastSpotLatLng
              (availableMarkerEntries ! i)
            \<and> xless (Fin straightLineDist) (snd acc)
         then (Some i, Fin straightLineDist)
         else acc))"

definition bestNextSpotIndex ::
  "geoLib \<Rightarrow> LineString \<Rightarrow> real \<Rightarrow> TravelProfile \<Rightarrow> (real \<times> LatLng) list \<Rightarrow> nat set
     \<Rightarrow> real \<Rightarrow> LatLng \<Rightarrow> nat option" where
  "bestNextSpotIndex lib courseLine runnerSecondsPerMeter profile availableMarkerEntries usedIndices
       lastSpotDistance lastSpotLatLng =
     fst (foldl (considerSpot lib courseLine runnerSecondsPerMeter profile availableMarkerEntries
                   usedIndices lastSpotDistance lastSpotLatLng)
            (None, PInf) [0..<length availableMarkerEntries])"

text \<open>The \<^verbatim>\<open>while\<close> loop of the greedy walk.\<close>

function minTravelLoop ::
  "geoLib \<Rightarrow> LineString \<Rightarrow> real \<Rightarrow> TravelProfile \<Rightarrow> (real \<times> LatLng) list \<Rightarrow> int
     \<Rightarrow> real list \<Rightarrow> real \<Rightarrow> LatLng \<Rightarrow> nat set \<Rightarrow> real list" where
  "minTravelLoop lib courseLine runnerSecondsPerMeter profile availableMarkerEntries numToSelect
       suggestedDistances lastSpotDistance lastSpotLatLng usedIndices =
     (if int (length suggestedDistances) < numToSelect then
        (case bestNextSpotIndex lib courseLine runnerSecondsPerMeter profile availableMarkerEntries
                usedIndices lastSpotDistance lastSpotLatLng of
           Some best \<Rightarrow>
             minTravelLoop lib courseLine runnerSecondsPerMeter profile availableMarkerEntries numToSelect
               (suggestedDistances @ [fst (availableMarkerEntries ! best)])
               (fst (availableMarkerEntries ! best))
               (snd (availableMarkerEntries ! best))
               (insert best usedIndices)
         | None \<Rightarrow> suggestedDistances)
      else suggestedDistances)"
  by pat_completeness auto
termination
  by (relation "measure (\<lambda>(lib, courseLine, pace, profile, available, numToSelect, suggested, rest).
                  nat (numToSelect - int (length suggested)))")
     auto

declare placeSpots.simps [simp del] placeFiveKm.simps [simp del] minTravelLoop.simps [simp del]

text \<open>
  What one run of the handler decides: to clear the selection (the guard), to show the
  pace message, to leave everything as it is, or to commit a list of distances.
\<close>

datatype suggestion = NoMarkers | InvalidPace | NoChange | Distances "real list"

definition suggestSpots :: "geoLib \<Rightarrow> appState \<Rightarrow> suggestion" where
  "suggestSpots lib s =
     (if potentiallyAvailableMarkers s = [] \<or> numSpotsToSuggest s \<le> 0 \<or> gpxCourseLine s = None
      then NoMarkers
      else
        (let availableMarkerEntries = potentiallyAvailableMarkers s;
             numToSelect = min (numSpotsToSuggest s) (int (length availableMarkerEntries))
         in if suggestionStrategy s = maxSpread then
              Distances (maxSpreadDistances availableMarkerEntries numToSelect)
            else
              (case parsePaceToSecondsPerMeter (runnerPace s) of
                 None \<Rightarrow> InvalidPace
               | Some runnerSecondsPerMeter \<Rightarrow>
                   if length availableMarkerEntries = 0 then NoChange
                   else
                     (let firstMarkerEntry = availableMarkerEntries ! 0 in
                      Distances
                        (minTravelLoop lib (the (gpxCourseLine s)) runnerSecondsPerMeter (travelProfile s)
                           availableMarkerEntries numToSelect
                           [fst firstMarkerEntry] (fst firstMarkerEntry) (snd firstMarkerEntry) {0})))))"

definition handleSuggestSpots :: "geoLib \<Rightarrow> appState \<Rightarrow> appState" where
  "handleSuggestSpots lib s =
     (case suggestSpots lib s of
        NoMarkers \<Rightarrow> s\<lparr>selectedSpots := {}\<rparr>
      | InvalidPace \<Rightarrow> s\<lparr>alerts := alerts s @ [''Please enter a valid runner pace...'']\<rparr>
      | NoChange \<Rightarrow> s
      | Distances suggestedDistances \<Rightarrow> s\<lparr>selectedSpots := set suggestedDistances\<rparr>)"

text \<open>
  A planar stand-in for the libraries, used only to run the model on concrete inputs:
  distances are city-block distances at 100 km per degree, and no two lines intersect.
\<close>

definition flatDistance :: "LatLng \<Rightarrow> LatLng \<Rightarrow> real" where
  "flatDistance a b = 100000 * (\<bar>lat a - lat b\<bar> + \<bar>lng a - lng b\<bar>)"

definition flatLib :: geoLib where
  "flatLib = \<lparr>distanceTo = flatDistance, lineIntersect = (\<lambda>a b. []),
              turfDistance = (\<lambda>a b. 100000 * (\<bar>fst a - fst b\<bar> + \<bar>snd a - snd b\<bar>))\<rparr>"

text \<open>
  The feasibility rule as the specification words it, in plain real arithmetic: never for
  transit; otherwise the spectator's straight-line travel time at 1.4 m/s (walking) or
  5.5 m/s (cycling), plus 300 s when the path truly crosses the course, plus 600 s, is
  less than the runner's time over the course distance between the two spots.
\<close>

definition reachableInTime ::
  "geoLib \<Rightarrow> LineString \<Rightarrow> real \<Rightarrow> TravelProfile \<Rightarrow> real \<Rightarrow> LatLng \<Rightarrow> real \<times> LatLng \<Rightarrow> bool" where
  "reachableInTime lib courseLine pace profile lastSpotDistance lastSpotLatLng entry =
     (profile \<noteq> transit
      \<and> distanceTo lib lastSpotLatLng (snd entry) / (if profile = walking then 14 / 10 else 55 / 10)
          + (if courseCrossing lib courseLine lastSpotLatLng (snd entry) then 300 else 0) + 600
        < (fst entry - lastSpotDistance) * pace)"

text \<open>
  An application state for running the handler: four candidates along the equator, at
  50 m, 3000 m, 6050 m and 12050 m of a straight course.
\<close>

definition demoState :: "string \<Rightarrow> TravelProfile \<Rightarrow> SuggestionStrategy \<Rightarrow> int \<Rightarrow> appState" where
  "demoState pace profile strategy n =
     \<lparr>runnerPace = pace, selectedSpots = {3000},
      markerPositions = [(50, \<lparr>lat = 0, lng = 5 / 10000\<rparr>), (3000, \<lparr>lat = 0, lng = 3 / 100\<rparr>),
                         (6050, \<lparr>lat = 0, lng = 605 / 10000\<rparr>), (12050, \<lparr>lat = 0, lng = 1205 / 10000\<rparr>)],
      travelProfile = profile, gpxCourseLine = Some [(0, 0), (1205 / 10000, 0)],
      numSpotsToSuggest = n, suggestionStrategy = strategy, skipFirstKm = 0, alerts = []\<rparr>"

text \<open>Ten points along the equator, 500 m apart in the planar stand-in.\<close>

definition tenPoints :: "LatLng list" where
  "tenPoints = map (\<lambda>k. \<lparr>lat = 0, lng = real k * 5 / 1000\<rparr>) [0..<10]"

text \<open>
  Two arithmetics with the exact identities: exact real arithmetic, and one whose sums of
  two non-zero numbers are off by \<open>1e-18\<close>, as a rounded sum may be.
\<close>

definition exactArith :: arith where
  "exactArith = \<lparr>fadd = (+), fsub = (-), fmul = (*), fdiv = (/), tiny = 1 / 10 ^ 12\<rparr>"

definition roundingArith :: arith where
  "roundingArith =
     \<lparr>fadd = (\<lambda>x y. if x = 0 then y else if y = 0 then x else x + y + 1 / 10 ^ 18),
      fsub = (-), fmul = (*), fdiv = (/), tiny = 1 / 10 ^ 12\<rparr>"




definition twoPoints :: "LatLng list" where
  "twoPoints = [\<lparr>lat = 0, lng = 1 / 10\<rparr>, \<lparr>lat = 0, lng = 1 / 1000\<rparr>]"

section \<open>The pace parser\<close>

lemma parsePace_positive: "parsePaceToSecondsPerMeter pace = Some p \<Longrightarrow> 0 < p"
  by (auto simp: parsePaceToSecondsPerMeter_def Let_def split: if_splits option.splits)

lemma parsePace_five_minutes: "parsePaceToSecondsPerMeter ''5:00'' = Some (3 / 10)"
  by (simp add: parsePaceToSecondsPerMeter_def parseInt_def isWhiteSpace_def isDigit_def
      digitsValue_def)

lemma parsePace_letters: "parsePaceToSecondsPerMeter ''abc'' = None"
  by (simp add: parsePaceToSecondsPerMeter_def)

text \<open>
  C8. The claim asks that a string with a non-numeric part be rejected. The input
  \<^verbatim>\<open>"5:30abc"\<close> splits into two parts, the second of which is not a number, and the
  parser accepts it, with the pace of \<^verbatim>\<open>"5:30"\<close>: \<^verbatim>\<open>parseInt\<close> reads the leading
  digits and the test for \<^verbatim>\<open>NaN\<close> does not see what follows them.
\<close>

theorem parsePace_accepts_trailing_text:
  "split_colon ''5:30abc'' = [''5'', ''30abc'']
   \<and> \<not> list_all isDigit ''30abc''
   \<and> parseInt ''30abc'' = Some 30
   \<and> parsePaceToSecondsPerMeter ''5:30abc'' = Some (330 / 1000)
   \<and> parsePaceToSecondsPerMeter ''5:30abc'' = parsePaceToSecondsPerMeter ''5:30''"
  by (simp add: parsePaceToSecondsPerMeter_def parseInt_def isWhiteSpace_def isDigit_def
      digitsValue_def)

section \<open>The crossing detector\<close>

lemma trueIntersection_iff:
  "trueIntersection lib a b ps \<longleftrightarrow>
     (\<exists>p \<in> set ps. 10 < turfDistance lib a p \<and> 10 < turfDistance lib b p)"
  by (induction ps) (auto simp: Let_def)

text \<open>
  C4. For every course line and spectator segment from A to B, the detector answers true
  exactly when one of the intersection points of the course with the segment is more than
  10 m from A and more than 10 m from B; with no intersection point it answers false.
\<close>

theorem crossing_detector_iff:
  "(courseCrossing lib courseLine A B \<longleftrightarrow>
      (\<exists>p \<in> set (lineIntersect lib courseLine [(lng A, lat A), (lng B, lat B)]).
          10 < turfDistance lib (lng A, lat A) p \<and> 10 < turfDistance lib (lng B, lat B) p))
   \<and> (lineIntersect lib courseLine [(lng A, lat A), (lng B, lat B)] = []
        \<longrightarrow> \<not> courseCrossing lib courseLine A B)"
  by (auto simp: courseCrossing_def Let_def trueIntersection_iff)

theorem crossing_detector_witness:
  "courseCrossing (flatLib\<lparr>lineIntersect := (\<lambda>a b. [(1 / 2, 0)])\<rparr>) [(1 / 2, -1), (1 / 2, 1)]
      \<lparr>lat = 0, lng = 0\<rparr> \<lparr>lat = 0, lng = 1\<rparr>
   \<and> \<not> courseCrossing flatLib [(5, -1), (5, 1)] \<lparr>lat = 0, lng = 0\<rparr> \<lparr>lat = 0, lng = 1\<rparr>"
  using crossing_detector_iff [of "flatLib\<lparr>lineIntersect := (\<lambda>a b. [(1 / 2, 0)])\<rparr>"
          "[(1 / 2, -1), (1 / 2, 1)]" "\<lparr>lat = 0, lng = 0\<rparr>" "\<lparr>lat = 0, lng = 1\<rparr>"]
        crossing_detector_iff [of flatLib "[(5, -1), (5, 1)]" "\<lparr>lat = 0, lng = 0\<rparr>" "\<lparr>lat = 0, lng = 1\<rparr>"]
  by (simp add: flatLib_def)

section \<open>The spot selector\<close>

lemma sorted_available: "sorted (map fst (potentiallyAvailableMarkers s))"
  by (simp add: potentiallyAvailableMarkers_def Let_def)

lemma demo_available:
  "potentiallyAvailableMarkers (demoState pace profile strategy n) =
     [(50, \<lparr>lat = 0, lng = 5 / 10000\<rparr>), (3000, \<lparr>lat = 0, lng = 3 / 100\<rparr>),
      (6050, \<lparr>lat = 0, lng = 605 / 10000\<rparr>), (12050, \<lparr>lat = 0, lng = 1205 / 10000\<rparr>)]"
  by (simp add: potentiallyAvailableMarkers_def demoState_def)

lemma flatDistance_nonneg: "0 \<le> distanceTo flatLib a b"
  by (simp add: flatLib_def flatDistance_def)

lemma sorted_hd_Min:
  assumes "xs \<noteq> []" "sorted (map fst xs)"
  shows "fst (hd xs) = Min (fst ` set xs)"
proof -
  obtain x rest where xs: "xs = x # rest" using assms(1) by (cases xs) auto
  have "\<forall>y \<in> set rest. fst x \<le> fst y" using assms(2) xs by auto
  then have "Min (insert (fst x) (fst ` set rest)) = fst x"
    by (intro Min_eqI) auto
  then show ?thesis using xs by simp
qed

lemma sorted_last_Max:
  assumes "xs \<noteq> []" "sorted (map fst xs)"
  shows "fst (xs ! (length xs - 1)) = Max (fst ` set xs)"
proof -
  have "\<forall>y \<in> set xs. fst y \<le> fst (last xs)"
  proof
    fix y assume "y \<in> set xs"
    then obtain i where i: "i < length xs" "xs ! i = y" by (auto simp: in_set_conv_nth)
    have "map fst xs ! i \<le> map fst xs ! (length xs - 1)"
      using assms i by (intro sorted_nth_mono) auto
    then show "fst y \<le> fst (last xs)" using i assms(1) by (simp add: last_conv_nth)
  qed
  moreover have "last xs \<in> set xs" using assms(1) by simp
  ultimately have "Max (fst ` set xs) = fst (last xs)"
    by (intro Max_eqI) auto
  then show ?thesis using assms(1) by (simp add: last_conv_nth)
qed

subsection \<open>Maximum spread\<close>

lemma js_round_nat: "js_round (real i) = int i"
  unfolding js_round_def by linarith

lemma maxSpread_all:
  assumes "xs \<noteq> []"
  shows "maxSpreadDistances xs (int (length xs)) = map fst xs"
proof (cases "length xs = 1")
  case True
  then obtain x where "xs = [x]" by (cases xs) auto
  then show ?thesis by (simp add: maxSpreadDistances_def)
next
  case False
  then have len: "1 < length xs" using assms by (cases xs) auto
  then have step: "(real (length xs) - 1) / (real_of_int (int (length xs)) - 1) = 1" by simp
  have "map (\<lambda>i. fst (xs ! nat (max 0 (min (js_round (real i * 1)) (int (length xs) - 1)))))
          [0..<length xs] = map (\<lambda>i. fst (xs ! i)) [0..<length xs]"
    by (rule map_cong) (auto simp: js_round_nat min_def)
  also have "\<dots> = map fst xs"
    by (rule nth_equalityI) auto
  finally show ?thesis
    using len by (simp add: maxSpreadDistances_def Let_def step del: of_nat_diff)
qed

text \<open>
  C7. Under the maximum-spread strategy, with a non-empty filtered pool (and a course
  loaded, so that the handler gets as far as computing \<^verbatim>\<open>numToSelect\<close>): when
  \<^verbatim>\<open>numToSelect\<close> is 1 the result is the single largest filtered distance, and when it is
  the size of the pool the result is every filtered distance, in order.
\<close>

theorem maxSpread_boundary:
  assumes "suggestionStrategy s = maxSpread"
    and "potentiallyAvailableMarkers s \<noteq> []"
    and "gpxCourseLine s \<noteq> None"
  shows "(min (numSpotsToSuggest s) (int (length (potentiallyAvailableMarkers s))) = 1
            \<longrightarrow> suggestSpots lib s = Distances [Max (fst ` set (potentiallyAvailableMarkers s))])
       \<and> (min (numSpotsToSuggest s) (int (length (potentiallyAvailableMarkers s)))
              = int (length (potentiallyAvailableMarkers s))
            \<longrightarrow> suggestSpots lib s = Distances (map fst (potentiallyAvailableMarkers s)))"
proof (intro conjI impI)
  let ?av = "potentiallyAvailableMarkers s"
  have pos: "0 < length ?av" using assms(2) by simp
  {
    assume one: "min (numSpotsToSuggest s) (int (length ?av)) = 1"
    then have "0 < numSpotsToSuggest s" using pos by linarith
    then have "suggestSpots lib s = Distances [fst (?av ! (length ?av - 1))]"
      using assms one pos by (simp add: suggestSpots_def Let_def maxSpreadDistances_def)
    then show "suggestSpots lib s = Distances [Max (fst ` set ?av)]"
      using sorted_last_Max [OF assms(2) sorted_available] by simp
  }
  {
    assume all: "min (numSpotsToSuggest s) (int (length ?av)) = int (length ?av)"
    then have "0 < numSpotsToSuggest s" using pos by linarith
    then show "suggestSpots lib s = Distances (map fst ?av)"
      using assms all by (simp add: suggestSpots_def Let_def maxSpread_all)
  }
qed

theorem maxSpread_boundary_witness:
  "suggestSpots flatLib (demoState ''5:00'' walking maxSpread 1) = Distances [12050]
   \<and> suggestSpots flatLib (demoState ''5:00'' walking maxSpread 4) = Distances [50, 3000, 6050, 12050]"
proof -
  have "suggestionStrategy (demoState ''5:00'' walking maxSpread n) = maxSpread"
    and "gpxCourseLine (demoState ''5:00'' walking maxSpread n) \<noteq> None"
    and "numSpotsToSuggest (demoState ''5:00'' walking maxSpread n) = n" for n
    by (simp_all add: demoState_def)
  then show ?thesis
    using maxSpread_boundary [of "demoState ''5:00'' walking maxSpread 1" flatLib]
          maxSpread_boundary [of "demoState ''5:00'' walking maxSpread 4" flatLib]
    by (simp add: demo_available)
qed

subsection \<open>Minimum travel: the choice of the next spot\<close>

lemma isFeasible_iff:
  "isFeasible lib cl pace profile lastD lastLL entry
     = reachableInTime lib cl pace profile lastD lastLL entry"
  by (cases profile)
     (simp_all add: isFeasible_def reachableInTime_def spectatorTime_def Let_def
        AVG_WALKING_SPEED_MPS_def AVG_CYCLING_SPEED_MPS_def SPECTATOR_BUFFER_SECONDS_def
        COURSE_CROSSING_PENALTY_SECONDS_def)

text \<open>
  The invariant of the loop over the candidates: after the indices \<open>xs\<close>, the accumulator
  is still empty when none of them is unused and feasible, and otherwise holds an unused
  feasible index of least straight-line distance among them, with that distance.
\<close>

lemma considerSpot_fold:
  fixes lib cl pace profile available used lastD lastLL
  defines "step \<equiv> considerSpot lib cl pace profile available used lastD lastLL"
    and "F \<equiv> \<lambda>i. i \<notin> used \<and> isFeasible lib cl pace profile lastD lastLL (available ! i)"
    and "sld \<equiv> \<lambda>i. distanceTo lib lastLL (snd (available ! i))"
  shows "case foldl step (None, PInf) xs of
           (None, m) \<Rightarrow> m = PInf \<and> (\<forall>i \<in> set xs. \<not> F i)
         | (Some j, m) \<Rightarrow> m = Fin (sld j) \<and> j \<in> set xs \<and> F j
                            \<and> (\<forall>i \<in> set xs. F i \<longrightarrow> sld j \<le> sld i)"
proof (induction xs rule: rev_induct)
  case Nil
  then show ?case by simp
next
  case (snoc x xs)
  obtain b m where acc: "foldl step (None, PInf) xs = (b, m)"
    by (cases "foldl step (None, PInf) xs")
  have stepx: "step (b, m) x =
      (if x \<in> used then (b, m)
       else if isFeasible lib cl pace profile lastD lastLL (available ! x) \<and> xless (Fin (sld x)) m
            then (Some x, Fin (sld x)) else (b, m))"
    by (simp add: step_def sld_def considerSpot_def Let_def)
  have unfold: "foldl step (None, PInf) (xs @ [x]) = step (b, m) x"
    using acc by simp
  have ih: "case b of None \<Rightarrow> m = PInf \<and> (\<forall>i \<in> set xs. \<not> F i)
            | Some j \<Rightarrow> m = Fin (sld j) \<and> j \<in> set xs \<and> F j
                         \<and> (\<forall>i \<in> set xs. F i \<longrightarrow> sld j \<le> sld i)"
    using snoc acc by simp
  show ?case
  proof (cases b)
    case None
    then show ?thesis using ih unfolding unfold stepx
      by (auto simp: F_def)
  next
    case (Some j)
    then show ?thesis using ih unfolding unfold stepx
      by (auto simp: F_def)
  qed
qed

lemma best_None:
  "bestNextSpotIndex lib cl pace profile available used lastD lastLL = None \<longleftrightarrow>
     (\<forall>i < length available.
        i \<notin> used \<longrightarrow> \<not> isFeasible lib cl pace profile lastD lastLL (available ! i))"
  using considerSpot_fold [where xs = "[0..<length available]" and lib = lib and cl = cl
          and pace = pace and profile = profile and available = available and used = used
          and lastD = lastD and lastLL = lastLL]
  by (auto simp: bestNextSpotIndex_def split: prod.splits option.splits)

lemma best_Some:
  assumes "bestNextSpotIndex lib cl pace profile available used lastD lastLL = Some b"
  shows "b < length available \<and> b \<notin> used
         \<and> isFeasible lib cl pace profile lastD lastLL (available ! b)
         \<and> (\<forall>i < length available.
               i \<notin> used \<and> isFeasible lib cl pace profile lastD lastLL (available ! i)
               \<longrightarrow> distanceTo lib lastLL (snd (available ! b))
                     \<le> distanceTo lib lastLL (snd (available ! i)))"
  using considerSpot_fold [where xs = "[0..<length available]" and lib = lib and cl = cl
          and pace = pace and profile = profile and available = available and used = used
          and lastD = lastD and lastLL = lastLL] assms
  by (auto simp: bestNextSpotIndex_def split: prod.splits option.splits)

text \<open>
  C1. In the minimum-travel strategy, a candidate seen from the last selected spot is
  feasible exactly when the runner's time (course distance between the spots times the
  pace) exceeds the spectator's time plus the crossing penalty plus 600 s, the
  spectator's time being the straight-line distance over 1.4 m/s (walking) or 5.5 m/s
  (cycling) and infinite for transit, and the penalty 300 s on a true crossing and 0
  otherwise. The loop over the candidates finds nothing exactly when no unused candidate
  is feasible, and otherwise chooses an unused feasible candidate whose straight-line
  distance is least among the unused feasible ones.
\<close>

theorem minTravel_choice:
  "(isFeasible lib cl pace profile lastD lastLL entry
      \<longleftrightarrow> reachableInTime lib cl pace profile lastD lastLL entry)
   \<and> (bestNextSpotIndex lib cl pace profile available used lastD lastLL = None \<longleftrightarrow>
        (\<forall>i < length available. i \<notin> used
            \<longrightarrow> \<not> reachableInTime lib cl pace profile lastD lastLL (available ! i)))
   \<and> (\<forall>b. bestNextSpotIndex lib cl pace profile available used lastD lastLL = Some b \<longrightarrow>
        b < length available \<and> b \<notin> used
        \<and> reachableInTime lib cl pace profile lastD lastLL (available ! b)
        \<and> (\<forall>i < length available.
              i \<notin> used \<and> reachableInTime lib cl pace profile lastD lastLL (available ! i)
              \<longrightarrow> distanceTo lib lastLL (snd (available ! b))
                    \<le> distanceTo lib lastLL (snd (available ! i))))"
  using best_None [of lib cl pace profile available used lastD lastLL]
        best_Some [of lib cl pace profile available used lastD lastLL]
  by (simp add: isFeasible_iff)

theorem minTravel_choice_witness:
  "bestNextSpotIndex flatLib [(0, 0), (1205 / 10000, 0)] (3 / 10) cycling
       (potentiallyAvailableMarkers (demoState ''5:00'' cycling minTravel 3)) {0}
       50 \<lparr>lat = 0, lng = 5 / 10000\<rparr> = Some 2
   \<and> reachableInTime flatLib [(0, 0), (1205 / 10000, 0)] (3 / 10) cycling 50
       \<lparr>lat = 0, lng = 5 / 10000\<rparr> (6050, \<lparr>lat = 0, lng = 605 / 10000\<rparr>)
   \<and> \<not> reachableInTime flatLib [(0, 0), (1205 / 10000, 0)] (3 / 10) cycling 50
       \<lparr>lat = 0, lng = 5 / 10000\<rparr> (3000, \<lparr>lat = 0, lng = 3 / 100\<rparr>)"
proof -
  let ?av = "potentiallyAvailableMarkers (demoState ''5:00'' cycling minTravel 3)"
  have best: "bestNextSpotIndex flatLib [(0, 0), (1205 / 10000, 0)] (3 / 10) cycling ?av {0}
                50 \<lparr>lat = 0, lng = 5 / 10000\<rparr> = Some 2"
    by (simp add: demo_available bestNextSpotIndex_def considerSpot_def isFeasible_def
        spectatorTime_def courseCrossing_def flatLib_def flatDistance_def upt_rec
        AVG_WALKING_SPEED_MPS_def AVG_CYCLING_SPEED_MPS_def SPECTATOR_BUFFER_SECONDS_def
        COURSE_CROSSING_PENALTY_SECONDS_def)
  have near: "\<not> isFeasible flatLib [(0, 0), (1205 / 10000, 0)] (3 / 10) cycling 50
                 \<lparr>lat = 0, lng = 5 / 10000\<rparr> (3000, \<lparr>lat = 0, lng = 3 / 100\<rparr>)"
    by (simp add: isFeasible_def spectatorTime_def courseCrossing_def flatLib_def
        flatDistance_def AVG_CYCLING_SPEED_MPS_def SPECTATOR_BUFFER_SECONDS_def)
  show ?thesis
    using best near
      minTravel_choice [of flatLib "[(0, 0), (1205 / 10000, 0)]" "3 / 10" cycling 50
        "\<lparr>lat = 0, lng = 5 / 10000\<rparr>" "(3000, \<lparr>lat = 0, lng = 3 / 100\<rparr>)" ?av "{0}"]
    by (simp add: demo_available)
qed

subsection \<open>Minimum travel: the greedy walk\<close>

lemma feasible_further:
  assumes "isFeasible lib cl pace profile lastD lastLL entry"
    and "0 < pace" and "0 \<le> distanceTo lib lastLL (snd entry)"
  shows "lastD < fst entry"
proof -
  have r: "reachableInTime lib cl pace profile lastD lastLL entry"
    using assms(1) by (simp add: isFeasible_iff)
  have "0 \<le> distanceTo lib lastLL (snd entry) / (if profile = walking then 14 / 10 else 55 / 10)"
    using assms(3) by simp
  then have "0 < (fst entry - lastD) * pace"
    using r unfolding reachableInTime_def by (auto split: if_splits)
  then show ?thesis using assms(2) by (simp add: zero_less_mult_iff)
qed

lemma strict_sorted_le_last:
  "sorted_wrt (<) xs \<Longrightarrow> x \<in> set xs \<Longrightarrow> (x::real) \<le> last xs"
  by (induction xs) (auto simp: less_imp_le)

text \<open>A strictly increasing list drawn from a sorted list is a subsequence of it.\<close>

lemma strict_subseq:
  "sorted ys \<Longrightarrow> sorted_wrt (<) xs \<Longrightarrow> set xs \<subseteq> set ys \<Longrightarrow> subseq xs (ys :: real list)"
proof (induction ys arbitrary: xs)
  case Nil
  then show ?case by simp
next
  case (Cons y ys)
  show ?case
  proof (cases xs)
    case Nil
    then show ?thesis by simp
  next
    case (Cons x xs')
    show ?thesis
    proof (cases "x = y")
      case True
      have "set xs' \<subseteq> set ys"
      proof
        fix z assume z: "z \<in> set xs'"
        then have "x < z" using Cons.prems(2) Cons by auto
        moreover have "z \<in> set (y # ys)" using z Cons.prems(3) Cons by auto
        ultimately show "z \<in> set ys" using True by auto
      qed
      moreover have "sorted ys" "sorted_wrt (<) xs'" using Cons.prems Cons by auto
      ultimately have "subseq xs' ys" using Cons.IH by blast
      then show ?thesis using True Cons by simp
    next
      case False
      have xin: "x \<in> set ys" using Cons.prems(3) Cons False by auto
      then have yx: "y < x" using Cons.prems(1) False by auto
      have "set xs \<subseteq> set ys"
      proof
        fix z assume z: "z \<in> set xs"
        then have "x \<le> z" using Cons.prems(2) Cons by auto
        then have "z \<noteq> y" using yx by simp
        moreover have "z \<in> set (y # ys)" using z Cons.prems(3) by auto
        ultimately show "z \<in> set ys" by simp
      qed
      moreover have "sorted ys" using Cons.prems(1) by simp
      ultimately have "subseq xs ys" using Cons.IH Cons.prems(2) by blast
      then show ?thesis by (rule list_emb_Cons)
    qed
  qed
qed

lemma minTravelLoop_invariant:
  assumes "0 < pace" and "\<forall>a b. 0 \<le> distanceTo lib a b"
    and "suggested \<noteq> []" and "sorted_wrt (<) suggested" and "last suggested = lastD"
    and "set suggested \<subseteq> fst ` set available"
  shows "sorted_wrt (<) (minTravelLoop lib cl pace profile available n suggested lastD lastLL used)
         \<and> set (minTravelLoop lib cl pace profile available n suggested lastD lastLL used)
             \<subseteq> fst ` set available
         \<and> minTravelLoop lib cl pace profile available n suggested lastD lastLL used \<noteq> []
         \<and> hd (minTravelLoop lib cl pace profile available n suggested lastD lastLL used) = hd suggested"
  using assms
proof (induction lib cl pace profile available n suggested lastD lastLL used rule: minTravelLoop.induct)
  case (1 lib cl pace profile available n suggested lastD lastLL used)
  show ?case
  proof (cases "int (length suggested) < n")
    case False
    then have "minTravelLoop lib cl pace profile available n suggested lastD lastLL used = suggested"
      by (subst minTravelLoop.simps) simp
    then show ?thesis using "1.prems" by simp
  next
    case True
    show ?thesis
    proof (cases "bestNextSpotIndex lib cl pace profile available used lastD lastLL")
      case None
      then have "minTravelLoop lib cl pace profile available n suggested lastD lastLL used = suggested"
        by (subst minTravelLoop.simps) simp
      then show ?thesis using "1.prems" by simp
    next
      case (Some b)
      let ?d = "fst (available ! b)"
      have b: "b < length available" "isFeasible lib cl pace profile lastD lastLL (available ! b)"
        using best_Some [OF Some] by auto
      have further: "lastD < ?d"
        using feasible_further [OF b(2) "1.prems"(1)] "1.prems"(2) by simp
      have "\<forall>x \<in> set suggested. x < ?d"
        using strict_sorted_le_last [OF "1.prems"(4)] "1.prems"(5) further by fastforce
      then have sorted': "sorted_wrt (<) (suggested @ [?d])"
        using "1.prems"(4) by (simp add: sorted_wrt_append)
      have sub': "set (suggested @ [?d]) \<subseteq> fst ` set available"
        using "1.prems"(6) b(1) by auto
      have ih: "sorted_wrt (<) (minTravelLoop lib cl pace profile available n (suggested @ [?d]) ?d
                     (snd (available ! b)) (insert b used))
          \<and> set (minTravelLoop lib cl pace profile available n (suggested @ [?d]) ?d
                     (snd (available ! b)) (insert b used)) \<subseteq> fst ` set available
          \<and> minTravelLoop lib cl pace profile available n (suggested @ [?d]) ?d
                     (snd (available ! b)) (insert b used) \<noteq> []
          \<and> hd (minTravelLoop lib cl pace profile available n (suggested @ [?d]) ?d
                     (snd (available ! b)) (insert b used)) = hd (suggested @ [?d])"
        using "1.IH" [OF True Some "1.prems"(1,2) _ sorted' _ sub'] by simp
      have step: "minTravelLoop lib cl pace profile available n suggested lastD lastLL used
            = minTravelLoop lib cl pace profile available n (suggested @ [?d]) ?d
                     (snd (available ! b)) (insert b used)"
        using True Some by (subst minTravelLoop.simps) simp
      show ?thesis unfolding step using ih "1.prems"(3) by simp
    qed
  qed
qed

text \<open>
  C2. With the minimum-travel strategy, a valid pace and a non-empty filtered pool (the
  requested number of spots being positive and a course loaded, as the operation's inputs
  are), the distances returned are strictly increasing, form a subsequence of the sorted
  filtered distances, and begin with the smallest filtered distance. The distance between
  two points is never negative.
\<close>

theorem minTravel_monotonic:
  assumes "suggestionStrategy s = minTravel"
    and "potentiallyAvailableMarkers s \<noteq> []"
    and "1 \<le> numSpotsToSuggest s"
    and "gpxCourseLine s \<noteq> None"
    and "parsePaceToSecondsPerMeter (runnerPace s) = Some pace"
    and "\<forall>a b. 0 \<le> distanceTo lib a b"
  shows "\<exists>ds. suggestSpots lib s = Distances ds
           \<and> sorted_wrt (<) ds
           \<and> subseq ds (map fst (potentiallyAvailableMarkers s))
           \<and> ds \<noteq> []
           \<and> hd ds = Min (fst ` set (potentiallyAvailableMarkers s))"
proof -
  let ?av = "potentiallyAvailableMarkers s"
  let ?n = "min (numSpotsToSuggest s) (int (length ?av))"
  let ?ds = "minTravelLoop lib (the (gpxCourseLine s)) pace (travelProfile s) ?av ?n
               [fst (?av ! 0)] (fst (?av ! 0)) (snd (?av ! 0)) {0}"
  have run: "suggestSpots lib s = Distances ?ds"
    using assms by (simp add: suggestSpots_def Let_def)
  have seed_in: "fst (?av ! 0) \<in> fst ` set ?av"
    using assms(2) nth_mem [of 0 ?av] by (intro imageI) simp
  have inv: "sorted_wrt (<) ?ds \<and> set ?ds \<subseteq> fst ` set ?av \<and> ?ds \<noteq> []
             \<and> hd ?ds = hd [fst (?av ! 0)]"
    using seed_in
    by (intro minTravelLoop_invariant [OF parsePace_positive [OF assms(5)] assms(6)]) simp_all
  have "subseq ?ds (map fst ?av)"
    using inv by (intro strict_subseq [OF sorted_available]) simp_all
  moreover have "fst (?av ! 0) = Min (fst ` set ?av)"
    using sorted_hd_Min [OF assms(2) sorted_available] assms(2) by (simp add: hd_conv_nth)
  ultimately show ?thesis using run inv by simp
qed

theorem minTravel_monotonic_witness:
  "\<exists>ds. suggestSpots flatLib (demoState ''5:00'' cycling minTravel 3) = Distances ds
      \<and> sorted_wrt (<) ds
      \<and> subseq ds [50, 3000, 6050, 12050]
      \<and> ds \<noteq> []
      \<and> hd ds = 50"
proof -
  let ?s = "demoState ''5:00'' cycling minTravel 3"
  have "suggestionStrategy ?s = minTravel" "potentiallyAvailableMarkers ?s \<noteq> []"
    "1 \<le> numSpotsToSuggest ?s" "gpxCourseLine ?s \<noteq> None"
    "parsePaceToSecondsPerMeter (runnerPace ?s) = Some (3 / 10)"
    by (simp_all add: demo_available) (simp_all add: demoState_def parsePace_five_minutes)
  moreover have "\<forall>a b. 0 \<le> distanceTo flatLib a b"
    by (simp add: flatDistance_nonneg)
  ultimately show ?thesis
    using minTravel_monotonic [of ?s "3 / 10" flatLib] by (simp add: demo_available)
qed

subsection \<open>Minimum travel: an invalid pace\<close>

text \<open>
  C9. With the minimum-travel strategy, a non-empty filtered pool and a pace string the
  parser rejects (the requested number of spots being positive and a course loaded, as
  the operation's inputs are), the handler shows the pace message and changes nothing
  else: the selected spots are the ones before the call.
\<close>

theorem invalid_pace_no_mutation:
  assumes "suggestionStrategy s = minTravel"
    and "potentiallyAvailableMarkers s \<noteq> []"
    and "1 \<le> numSpotsToSuggest s"
    and "gpxCourseLine s \<noteq> None"
    and "parsePaceToSecondsPerMeter (runnerPace s) = None"
  shows "suggestSpots lib s = InvalidPace
         \<and> selectedSpots (handleSuggestSpots lib s) = selectedSpots s
         \<and> alerts (handleSuggestSpots lib s) = alerts s @ [''Please enter a valid runner pace...'']
         \<and> handleSuggestSpots lib s = s\<lparr>alerts := alerts s @ [''Please enter a valid runner pace...'']\<rparr>"
proof -
  have "suggestSpots lib s = InvalidPace"
    using assms by (simp add: suggestSpots_def Let_def)
  then show ?thesis by (simp add: handleSuggestSpots_def)
qed

theorem invalid_pace_no_mutation_witness:
  "suggestSpots flatLib (demoState ''abc'' walking minTravel 3) = InvalidPace
   \<and> selectedSpots (handleSuggestSpots flatLib (demoState ''abc'' walking minTravel 3)) = {3000}
   \<and> alerts (handleSuggestSpots flatLib (demoState ''abc'' walking minTravel 3))
        = [''Please enter a valid runner pace...'']"
proof -
  let ?s = "demoState ''abc'' walking minTravel 3"
  have "suggestionStrategy ?s = minTravel" "potentiallyAvailableMarkers ?s \<noteq> []"
    "1 \<le> numSpotsToSuggest ?s" "gpxCourseLine ?s \<noteq> None"
    "parsePaceToSecondsPerMeter (runnerPace ?s) = None"
    by (simp_all add: demo_available) (simp_all add: demoState_def parsePace_letters)
  then show ?thesis
    using invalid_pace_no_mutation [of ?s flatLib] by (simp add: demoState_def)
qed

subsection \<open>Minimum travel: the transit profile\<close>

lemma transit_infeasible:
  "\<not> isFeasible lib courseLine pace transit lastD lastLL entry"
  by (simp add: isFeasible_def spectatorTime_def Let_def)

lemma transit_fold:
  "foldl (considerSpot lib courseLine pace transit available used lastD lastLL) acc is = acc"
  by (induction "is") (simp_all add: considerSpot_def transit_infeasible Let_def)

lemma transit_best:
  "bestNextSpotIndex lib courseLine pace transit available used lastD lastLL = None"
  by (simp add: bestNextSpotIndex_def transit_fold)

text \<open>
  C10. With the minimum-travel strategy, the transit profile, a valid pace, a non-empty
  filtered pool and \<^verbatim>\<open>numToSelect\<close> at least 1 (a course being loaded), the result is
  exactly one distance, the smallest filtered one: no candidate is feasible after the
  seed, whatever the distances.
\<close>

theorem transit_only_seed:
  assumes "suggestionStrategy s = minTravel"
    and "potentiallyAvailableMarkers s \<noteq> []"
    and "1 \<le> min (numSpotsToSuggest s) (int (length (potentiallyAvailableMarkers s)))"
    and "gpxCourseLine s \<noteq> None"
    and "parsePaceToSecondsPerMeter (runnerPace s) = Some pace"
    and "travelProfile s = transit"
  shows "suggestSpots lib s = Distances [Min (fst ` set (potentiallyAvailableMarkers s))]"
proof -
  let ?av = "potentiallyAvailableMarkers s"
  have seed: "fst (?av ! 0) = Min (fst ` set ?av)"
    using sorted_hd_Min [OF assms(2) sorted_available] assms(2) by (simp add: hd_conv_nth)
  have loop: "minTravelLoop lib cl pace transit ?av n [d] d ll {0} = [d]" for cl n d ll
    by (subst minTravelLoop.simps) (simp add: transit_best)
  have "suggestSpots lib s = Distances [fst (?av ! 0)]"
    using assms by (simp add: suggestSpots_def Let_def loop)
  then show ?thesis using seed by simp
qed

theorem transit_only_seed_witness:
  "suggestSpots flatLib (demoState ''5:00'' transit minTravel 3) = Distances [50]"
proof -
  let ?s = "demoState ''5:00'' transit minTravel 3"
  have "suggestionStrategy ?s = minTravel" "potentiallyAvailableMarkers ?s \<noteq> []"
    "1 \<le> min (numSpotsToSuggest ?s) (int (length (potentiallyAvailableMarkers ?s)))"
    "gpxCourseLine ?s \<noteq> None"
    "parsePaceToSecondsPerMeter (runnerPace ?s) = Some (3 / 10)"
    "travelProfile ?s = transit"
    by (simp_all add: demo_available) (simp_all add: demoState_def parsePace_five_minutes)
  then show ?thesis
    using transit_only_seed [of ?s "3 / 10" flatLib] by (simp add: demo_available)
qed

section \<open>The course indexer\<close>

lemma placeSpots_total:
  "totalDistance < nextSpot \<Longrightarrow>
     \<exists>nextSpot' markers'. placeSpots prev cur seg totalDistance nextSpot markers = Inr (nextSpot', markers')
        \<and> totalDistance + seg < nextSpot'"
proof (induction prev cur seg totalDistance nextSpot markers rule: placeSpots.induct)
  case (1 prev cur seg total nextSpot markers)
  show ?case
  proof (cases "nextSpot \<le> total + seg")
    case False
    then show ?thesis by (subst placeSpots.simps) simp
  next
    case True
    then have nz: "seg \<noteq> 0" using "1.prems" by auto
    have "total < nextSpot + POTENTIAL_SPOT_INTERVAL"
      using "1.prems" by (simp add: POTENTIAL_SPOT_INTERVAL_def)
    from "1.IH" [OF True nz refl refl refl refl refl this]
    show ?thesis using True nz by (subst placeSpots.simps) (simp add: Let_def)
  qed
qed

lemma placeFiveKm_total:
  "totalDistance < nextMark \<Longrightarrow>
     \<exists>nextMark' markers'. placeFiveKm prev cur seg totalDistance nextMark markers = Inr (nextMark', markers')
        \<and> totalDistance + seg < nextMark'"
proof (induction prev cur seg totalDistance nextMark markers rule: placeFiveKm.induct)
  case (1 prev cur seg total nextMark markers)
  show ?case
  proof (cases "nextMark \<le> total + seg")
    case False
    then show ?thesis by (subst placeFiveKm.simps) simp
  next
    case True
    then have nz: "seg \<noteq> 0" using "1.prems" by auto
    have "total < nextMark + 5000"
      using "1.prems" by simp
    from "1.IH" [OF True nz refl refl refl refl refl this]
    show ?thesis using True nz by (subst placeFiveKm.simps) (simp add: Let_def)
  qed
qed

lemma spotLoop_total:
  "totalDistance < nextSpot \<Longrightarrow> totalDistance < nextMark \<Longrightarrow>
     \<exists>r. spotLoop lib points totalDistance nextSpot nextMark markers markers5 = Inr r"
proof (induction points arbitrary: totalDistance nextSpot nextMark markers markers5)
  case Nil
  then show ?case by simp
next
  case (Cons p rest)
  show ?case
  proof (cases rest)
    case Nil
    then show ?thesis by simp
  next
    case (Cons q rest')
    obtain n1 m1 where s1: "placeSpots p q (distanceTo lib p q) totalDistance nextSpot markers = Inr (n1, m1)"
      "totalDistance + distanceTo lib p q < n1"
      using placeSpots_total [OF Cons.prems(1)] by blast
    obtain n5 m5 where s5: "placeFiveKm p q (distanceTo lib p q) totalDistance nextMark markers5 = Inr (n5, m5)"
      "totalDistance + distanceTo lib p q < n5"
      using placeFiveKm_total [OF Cons.prems(2)] by blast
    show ?thesis
      using Cons.IH [OF s1(2) s5(2)] s1(1) s5(1) Cons by (simp add: Let_def)
  qed
qed

lemma placeSpots_zero:
  "totalDistance < nextSpot \<Longrightarrow> placeSpots p q 0 totalDistance nextSpot markers = Inr (nextSpot, markers)"
  by (subst placeSpots.simps) simp

lemma placeFiveKm_zero:
  "totalDistance < nextMark \<Longrightarrow> placeFiveKm p q 0 totalDistance nextMark markers = Inr (nextMark, markers)"
  by (subst placeFiveKm.simps) simp

lemma spotLoop_repeated_point:
  assumes "distanceTo lib p p = 0"
  shows "totalDistance < nextSpot \<Longrightarrow> totalDistance < nextMark \<Longrightarrow>
     spotLoop lib (xs @ p # p # ys) totalDistance nextSpot nextMark markers markers5
       = spotLoop lib (xs @ p # ys) totalDistance nextSpot nextMark markers markers5"
proof (induction xs arbitrary: totalDistance nextSpot nextMark markers markers5)
  case Nil
  then show ?case
    using assms by (simp add: placeSpots_zero placeFiveKm_zero)
next
  case (Cons x xs)
  obtain q r where long: "xs @ p # p # ys = q # r" by (cases xs) auto
  obtain r' where short: "xs @ p # ys = q # r'" using long by (cases xs) auto
  obtain n1 m1 where s1: "placeSpots x q (distanceTo lib x q) totalDistance nextSpot markers = Inr (n1, m1)"
      "totalDistance + distanceTo lib x q < n1"
    using placeSpots_total [OF Cons.prems(1)] by blast
  obtain n5 m5 where s5: "placeFiveKm x q (distanceTo lib x q) totalDistance nextMark markers5 = Inr (n5, m5)"
      "totalDistance + distanceTo lib x q < n5"
    using placeFiveKm_total [OF Cons.prems(2)] by blast
  have "spotLoop lib (x # q # r) totalDistance nextSpot nextMark markers markers5
          = spotLoop lib (q # r) (totalDistance + distanceTo lib x q) n1 n5 m1 m5"
    using s1(1) s5(1) by (simp add: Let_def)
  moreover have "spotLoop lib (x # q # r') totalDistance nextSpot nextMark markers markers5
          = spotLoop lib (q # r') (totalDistance + distanceTo lib x q) n1 n5 m1 m5"
    using s1(1) s5(1) by (simp add: Let_def)
  moreover have "spotLoop lib (q # r) (totalDistance + distanceTo lib x q) n1 n5 m1 m5
          = spotLoop lib (q # r') (totalDistance + distanceTo lib x q) n1 n5 m1 m5"
    using Cons.IH [OF s1(2) s5(2)] long short by simp
  ultimately show ?case using long short by simp
qed

text \<open>
  C5. For every course of at least two points, repeated points included, the indexing pass
  ends with a candidate table: no interpolation divides by zero, so no candidate has
  undefined coordinates. A segment of length zero places no candidate: the table of a
  course with a point repeated is the table of the course without the repetition.
\<close>

theorem indexing_skips_zero_length:
  "(2 \<le> length points \<longrightarrow> (\<exists>markers. calculateMarkerPositions lib points = Inr (Some markers)))
   \<and> (distanceTo lib p p = 0 \<and> 2 \<le> length (xs @ p # ys) \<longrightarrow>
        calculateMarkerPositions lib (xs @ p # p # ys) = calculateMarkerPositions lib (xs @ p # ys))"
proof (intro conjI impI)
  assume "2 \<le> length points"
  moreover obtain r where "spotLoop lib points 0 POTENTIAL_SPOT_INTERVAL 5000 [] [] = Inr r"
    using spotLoop_total [of 0 POTENTIAL_SPOT_INTERVAL 5000 lib points "[]" "[]"]
    by (auto simp: POTENTIAL_SPOT_INTERVAL_def)
  ultimately show "\<exists>markers. calculateMarkerPositions lib points = Inr (Some markers)"
    by (cases r) (simp add: calculateMarkerPositions_def Let_def)
next
  assume a: "distanceTo lib p p = 0 \<and> 2 \<le> length (xs @ p # ys)"
  have "spotLoop lib (xs @ p # p # ys) 0 POTENTIAL_SPOT_INTERVAL 5000 [] []
          = spotLoop lib (xs @ p # ys) 0 POTENTIAL_SPOT_INTERVAL 5000 [] []"
    using a by (intro spotLoop_repeated_point) (simp_all add: POTENTIAL_SPOT_INTERVAL_def)
  moreover have "last (xs @ p # p # ys) = last (xs @ p # ys)" by simp
  moreover have "1 < length (xs @ p # p # ys)" "1 < length (xs @ p # ys)" using a by auto
  ultimately show "calculateMarkerPositions lib (xs @ p # p # ys) = calculateMarkerPositions lib (xs @ p # ys)"
    unfolding calculateMarkerPositions_def by (simp only: if_True)
qed

theorem indexing_skips_zero_length_witness:
  "calculateMarkerPositions flatLib [\<lparr>lat = 0, lng = 0\<rparr>, \<lparr>lat = 0, lng = 0\<rparr>, \<lparr>lat = 0, lng = 1 / 1000\<rparr>]
     = calculateMarkerPositions flatLib [\<lparr>lat = 0, lng = 0\<rparr>, \<lparr>lat = 0, lng = 1 / 1000\<rparr>]
   \<and> (\<exists>markers. calculateMarkerPositions flatLib
          [\<lparr>lat = 0, lng = 0\<rparr>, \<lparr>lat = 0, lng = 0\<rparr>, \<lparr>lat = 0, lng = 1 / 1000\<rparr>] = Inr (Some markers))"
proof -
  let ?p = "\<lparr>lat = 0, lng = 0\<rparr>" and ?q = "\<lparr>lat = 0, lng = 1 / 1000\<rparr>"
  note t = indexing_skips_zero_length [of "[?p, ?p, ?q]" flatLib ?p "[]" "[?q]"]
  have d0: "distanceTo flatLib ?p ?p = 0" by (simp add: flatLib_def flatDistance_def)
  have a: "\<exists>markers. calculateMarkerPositions flatLib [?p, ?p, ?q] = Inr (Some markers)"
    using t by simp
  have b: "calculateMarkerPositions flatLib [?p, ?p, ?q] = calculateMarkerPositions flatLib [?p, ?q]"
    using t d0 by simp
  show ?thesis by (rule conjI [OF b a])
qed

lemma placeSpots_keys:
  assumes "nextSpot = 50 * real n" and "1 \<le> n" and "totalDistance < nextSpot" and "0 \<le> seg"
    and "50 * (real n - 1) \<le> totalDistance + seg"
    and "fst ` set markers = (\<lambda>k. 50 * real k) ` {1..<n}" and "distinct (map fst markers)"
  shows "\<exists>n' markers'. placeSpots prev cur seg totalDistance nextSpot markers = Inr (50 * real n', markers')
           \<and> 1 \<le> n' \<and> 50 * (real n' - 1) \<le> totalDistance + seg \<and> totalDistance + seg < 50 * real n'
           \<and> fst ` set markers' = (\<lambda>k. 50 * real k) ` {1..<n'} \<and> distinct (map fst markers')"
  using assms
proof (induction prev cur seg totalDistance nextSpot markers arbitrary: n rule: placeSpots.induct)
  case (1 prev cur seg total nextSpot markers)
  show ?case
  proof (cases "nextSpot \<le> total + seg")
    case False
    then have "placeSpots prev cur seg total nextSpot markers = Inr (50 * real n, markers)"
      using "1.prems"(1) by (subst placeSpots.simps) simp
    then show ?thesis using False "1.prems" by auto
  next
    case True
    then have nz: "seg \<noteq> 0" using "1.prems"(3) by auto
    let ?spot = "\<lparr>lat = lat prev + (lat cur - lat prev) * ((nextSpot - total) / seg),
                  lng = lng prev + (lng cur - lng prev) * ((nextSpot - total) / seg)\<rparr>"
    let ?m = "AList.update nextSpot ?spot markers"
    have next': "nextSpot + POTENTIAL_SPOT_INTERVAL = 50 * real (Suc n)"
      using "1.prems"(1) by (simp add: POTENTIAL_SPOT_INTERVAL_def)
    have keys': "fst ` set ?m = (\<lambda>k. 50 * real k) ` {1..<Suc n}"
    proof -
      have "{1..<Suc n} = insert n {1..<n}" using "1.prems"(2) by auto
      then show ?thesis using "1.prems"(1,6) by (simp add: dom_update)
    qed
    have "\<exists>n' markers'. placeSpots prev cur seg total (nextSpot + POTENTIAL_SPOT_INTERVAL) ?m
              = Inr (50 * real n', markers')
           \<and> 1 \<le> n' \<and> 50 * (real n' - 1) \<le> total + seg \<and> total + seg < 50 * real n'
           \<and> fst ` set markers' = (\<lambda>k. 50 * real k) ` {1..<n'} \<and> distinct (map fst markers')"
    proof (rule "1.IH" [OF True nz refl refl refl refl refl next'])
      show "1 \<le> Suc n" by simp
      show "total < nextSpot + POTENTIAL_SPOT_INTERVAL"
        using "1.prems"(3) by (simp add: POTENTIAL_SPOT_INTERVAL_def)
      show "0 \<le> seg" by (rule "1.prems"(4))
      show "50 * (real (Suc n) - 1) \<le> total + seg" using True "1.prems"(1) by simp
      show "fst ` set ?m = (\<lambda>k. 50 * real k) ` {1..<Suc n}" by (rule keys')
      show "distinct (map fst ?m)" using "1.prems"(7) by (rule distinct_update)
    qed
    moreover have "placeSpots prev cur seg total nextSpot markers
                     = placeSpots prev cur seg total (nextSpot + POTENTIAL_SPOT_INTERVAL) ?m"
      using True nz by (subst placeSpots.simps) (simp add: Let_def)
    ultimately show ?thesis by simp
  qed
qed

lemma spotLoop_keys:
  assumes "\<forall>a b. 0 \<le> distanceTo lib a b"
  shows "nextSpot = 50 * real n \<Longrightarrow> 1 \<le> n \<Longrightarrow> 50 * (real n - 1) \<le> totalDistance
     \<Longrightarrow> totalDistance < nextSpot \<Longrightarrow> totalDistance < nextMark
     \<Longrightarrow> fst ` set markers = (\<lambda>k. 50 * real k) ` {1..<n} \<Longrightarrow> distinct (map fst markers)
     \<Longrightarrow> \<exists>n' markers' markers5'.
           spotLoop lib points totalDistance nextSpot nextMark markers markers5
             = Inr (last (totalDistance # cumulativeFrom lib totalDistance points), markers', markers5')
           \<and> 1 \<le> n'
           \<and> 50 * (real n' - 1) \<le> last (totalDistance # cumulativeFrom lib totalDistance points)
           \<and> last (totalDistance # cumulativeFrom lib totalDistance points) < 50 * real n'
           \<and> fst ` set markers' = (\<lambda>k. 50 * real k) ` {1..<n'} \<and> distinct (map fst markers')"
proof (induction points arbitrary: totalDistance nextSpot nextMark markers markers5 n)
  case Nil
  then show ?case by auto
next
  case (Cons p rest)
  show ?case
  proof (cases rest)
    case Nil
    then show ?thesis using Cons.prems by auto
  next
    case (Cons q rest')
    let ?seg = "distanceTo lib p q"
    have seg: "0 \<le> ?seg" using assms by simp
    then have low: "50 * (real n - 1) \<le> totalDistance + ?seg" using Cons.prems(3) by simp
    obtain n1 m1 where s1:
      "placeSpots p q ?seg totalDistance nextSpot markers = Inr (50 * real n1, m1)"
      "1 \<le> n1" "50 * (real n1 - 1) \<le> totalDistance + ?seg" "totalDistance + ?seg < 50 * real n1"
      "fst ` set m1 = (\<lambda>k. 50 * real k) ` {1..<n1}" "distinct (map fst m1)"
      using placeSpots_keys [OF Cons.prems(1,2,4) seg low Cons.prems(6,7), of p q] by blast
    obtain n5 m5 where s5:
      "placeFiveKm p q ?seg totalDistance nextMark markers5 = Inr (n5, m5)"
      "totalDistance + ?seg < n5"
      using placeFiveKm_total [OF Cons.prems(5)] by blast
    have step: "spotLoop lib (p # q # rest') totalDistance nextSpot nextMark markers markers5
                  = spotLoop lib (q # rest') (totalDistance + ?seg) (50 * real n1) n5 m1 m5"
      using s1(1) s5(1) by (simp add: Let_def)
    have tot: "last (totalDistance # cumulativeFrom lib totalDistance (p # q # rest'))
                 = last ((totalDistance + ?seg) # cumulativeFrom lib (totalDistance + ?seg) (q # rest'))"
      by simp
    show ?thesis
      unfolding Cons step tot
      using Cons.IH [OF refl s1(2,3,4) s5(2) s1(5,6), of m5] Cons by simp
  qed
qed

lemma cumulative_equal_spacing:
  "points \<noteq> [] \<Longrightarrow> \<forall>i. Suc i < length points \<longrightarrow> distanceTo lib (points ! i) (points ! Suc i) = c \<Longrightarrow>
     last (totalDistance # cumulativeFrom lib totalDistance points)
       = totalDistance + c * real (length points - 1)"
proof (induction points arbitrary: totalDistance)
  case Nil
  then show ?case by simp
next
  case (Cons p rest)
  show ?case
  proof (cases rest)
    case Nil
    then show ?thesis by simp
  next
    case (Cons q rest')
    have d: "distanceTo lib p q = c" using Cons.prems(2) Cons by force
    have "\<forall>i. Suc i < length rest \<longrightarrow> distanceTo lib (rest ! i) (rest ! Suc i) = c"
      using Cons.prems(2) by force
    then have "last ((totalDistance + c) # cumulativeFrom lib (totalDistance + c) rest)
                 = totalDistance + c + c * real (length rest - 1)"
      using Cons.IH [of "totalDistance + c"] Cons by simp
    then show ?thesis using Cons d by (simp add: algebra_simps)
  qed
qed

text \<open>
  C3. For every course of at least two points, with total length L (the last entry of the
  cumulative distance table) and the interval I = 50 of the code, the keys of the
  candidate table are exactly I, 2I, ..., floor(L / I) * I together with L; the keys are
  distinct, and the point stored at L is the last point of the course. On ten points
  500 m apart L is 4500, the finish key is the last regular key, and the table has 90
  entries. The distance between two points is never negative.
\<close>

theorem candidate_coverage:
  assumes "2 \<le> length points" and "\<forall>a b. 0 \<le> distanceTo lib a b"
  shows "\<exists>markers. calculateMarkerPositions lib points = Inr (Some markers)
           \<and> fst ` set markers
               = (\<lambda>k. POTENTIAL_SPOT_INTERVAL * real k)
                   ` {1..nat \<lfloor>last (cumulativeDistanceTable lib points) / POTENTIAL_SPOT_INTERVAL\<rfloor>}
                 \<union> {last (cumulativeDistanceTable lib points)}
           \<and> distinct (map fst markers)
           \<and> map_of markers (last (cumulativeDistanceTable lib points)) = Some (last points)
           \<and> (length points = 10
                \<and> (\<forall>i. Suc i < length points \<longrightarrow> distanceTo lib (points ! i) (points ! Suc i) = 500)
                \<longrightarrow> last (cumulativeDistanceTable lib points) = 4500 \<and> length markers = 90)"
proof -
  define L where "L = last (cumulativeDistanceTable lib points)"
  have L: "L = last (0 # cumulativeFrom lib 0 points)"
    by (simp add: L_def cumulativeDistanceTable_def)
  obtain n' m' m5' where run:
    "spotLoop lib points 0 POTENTIAL_SPOT_INTERVAL 5000 [] [] = Inr (L, m', m5')"
    "1 \<le> n'" "50 * (real n' - 1) \<le> L" "L < 50 * real n'"
    "fst ` set m' = (\<lambda>k. 50 * real k) ` {1..<n'}" "distinct (map fst m')"
    using spotLoop_keys [OF assms(2), of POTENTIAL_SPOT_INTERVAL 1 0 5000 "[]" points "[]"]
    unfolding L by (auto simp: POTENTIAL_SPOT_INTERVAL_def)
  let ?markers = "AList.update L (last points) m'"
  have res: "calculateMarkerPositions lib points = Inr (Some ?markers)"
    using assms(1) run(1) by (simp add: calculateMarkerPositions_def Let_def)
  have "\<lfloor>L / 50\<rfloor> = int n' - 1"
    using run(2,3,4) by (intro floor_unique) (simp_all add: field_simps)
  then have count: "nat \<lfloor>L / 50\<rfloor> = n' - 1" by simp
  have "{1..<n'} = {1..n' - 1}" using run(2) by auto
  then have keys: "fst ` set ?markers = (\<lambda>k. 50 * real k) ` {1..nat \<lfloor>L / 50\<rfloor>} \<union> {L}"
    using run(5) count by (simp add: dom_update)
  have dist: "distinct (map fst ?markers)"
    using run(6) by (rule distinct_update)
  have finish: "map_of ?markers L = Some (last points)"
    by (simp add: update_conv')
  have scenario: "L = 4500 \<and> length ?markers = 90"
    if ten: "length points = 10"
      and sp: "\<forall>i. Suc i < length points \<longrightarrow> distanceTo lib (points ! i) (points ! Suc i) = 500"
  proof -
    have "points \<noteq> []" using ten by auto
    then have L4500: "L = 4500"
      using cumulative_equal_spacing [of points lib 500 0] sp ten unfolding L by simp
    then have n: "nat \<lfloor>L / 50\<rfloor> = 90" by simp
    have "(4500::real) = 50 * real (90::nat)" by simp
    then have "(4500::real) \<in> (\<lambda>k. 50 * real k) ` {1..90}" by (intro image_eqI) auto
    then have "fst ` set ?markers = (\<lambda>k. 50 * real k) ` {1..90}"
      using keys L4500 n by auto
    moreover have "inj_on (\<lambda>k. 50 * real k) {1..90::nat}" by (auto intro: inj_onI)
    ultimately have "card (fst ` set ?markers) = 90" by (simp add: card_image)
    moreover have "card (fst ` set ?markers) = length ?markers"
      using distinct_card [OF dist] by simp
    ultimately show ?thesis using L4500 by simp
  qed
  show ?thesis
    using res keys dist finish scenario
    unfolding L_def [symmetric] by (auto simp: POTENTIAL_SPOT_INTERVAL_def)
qed

lemma tenPoints_spacing:
  "Suc i < length tenPoints \<Longrightarrow> distanceTo flatLib (tenPoints ! i) (tenPoints ! Suc i) = 500"
  by (simp add: tenPoints_def flatLib_def flatDistance_def algebra_simps)

theorem candidate_coverage_witness:
  "\<exists>markers. calculateMarkerPositions flatLib tenPoints = Inr (Some markers)
      \<and> length markers = 90
      \<and> fst ` set markers = (\<lambda>k. 50 * real k) ` {1..90}
      \<and> map_of markers 4500 = Some \<lparr>lat = 0, lng = 45 / 1000\<rparr>"
proof -
  have len: "length tenPoints = 10" by (simp add: tenPoints_def)
  have lastp: "last tenPoints = \<lparr>lat = 0, lng = 45 / 1000\<rparr>"
    by (simp add: tenPoints_def last_conv_nth)
  have nonneg: "\<forall>a b. 0 \<le> distanceTo flatLib a b" by (simp add: flatDistance_nonneg)
  have two: "2 \<le> length tenPoints" using len by simp
  have sp: "\<forall>i. Suc i < length tenPoints \<longrightarrow> distanceTo flatLib (tenPoints ! i) (tenPoints ! Suc i) = 500"
    using tenPoints_spacing by blast
  have "(4500::real) \<in> (\<lambda>k. 50 * real k) ` {1..90::nat}"
    by (rule image_eqI [of _ _ 90]) simp_all
  then have "(\<lambda>k. 50 * real k) ` {1..90::nat} \<union> {4500} = (\<lambda>k. 50 * real k) ` {1..90}" by auto
  then show ?thesis
    using candidate_coverage [OF two nonneg] len sp lastp
    by (auto simp: POTENTIAL_SPOT_INTERVAL_def)
qed

section \<open>The trail projector\<close>

lemma nearestStep_eq:
  "nearestStep ar lib q pts st i =
     (let p1 = pts ! i; p2 = pts ! Suc i; r = projectionRatio ar q p1 p2;
          P = \<lparr>lat = fadd ar (lat p1) (fmul ar r (fsub ar (lat p2) (lat p1))),
               lng = fadd ar (lng p1) (fmul ar r (fsub ar (lng p2) (lng p1)))\<rparr>
      in if distanceTo lib p1 p2 = 0 then st
         else if xless (Fin (distanceTo lib q P)) (minDistance st)
              then \<lparr>minDistance = Fin (distanceTo lib q P), closestPoint = Some P,
                     closestSegmentIndex = i, closestRatio = r\<rparr>
              else st)"
  by (simp only: nearestStep_def projectionRatio_def Let_def Suc_eq_plus1)

lemma segmentTouches_eq:
  "segmentTouches ar lib q pts i \<longleftrightarrow>
     distanceTo lib (pts ! i) (pts ! Suc i) \<noteq> 0
     \<and> distanceTo lib q
          \<lparr>lat = fadd ar (lat (pts ! i))
                   (fmul ar (projectionRatio ar q (pts ! i) (pts ! Suc i)) (fsub ar (lat (pts ! Suc i)) (lat (pts ! i)))),
           lng = fadd ar (lng (pts ! i))
                   (fmul ar (projectionRatio ar q (pts ! i) (pts ! Suc i)) (fsub ar (lng (pts ! Suc i)) (lng (pts ! i))))\<rparr> = 0"
  by (simp only: segmentTouches_def Let_def Suc_eq_plus1)

lemma step_no_touch:
  assumes "\<forall>a b. 0 \<le> distanceTo lib a b" and "\<not> segmentTouches ar lib q pts i"
    and "xless (Fin 0) (minDistance st)"
  shows "xless (Fin 0) (minDistance (nearestStep ar lib q pts st i))"
proof -
  let ?p1 = "pts ! i" and ?p2 = "pts ! Suc i"
  let ?r = "projectionRatio ar q ?p1 ?p2"
  let ?P = "\<lparr>lat = fadd ar (lat ?p1) (fmul ar ?r (fsub ar (lat ?p2) (lat ?p1))),
             lng = fadd ar (lng ?p1) (fmul ar ?r (fsub ar (lng ?p2) (lng ?p1)))\<rparr>"
  show ?thesis
  proof (cases "distanceTo lib ?p1 ?p2 = 0")
    case True
    then show ?thesis using assms(3) by (simp add: nearestStep_eq Let_def)
  next
    case False
    then have "distanceTo lib q ?P \<noteq> 0"
      using assms(2) by (simp add: segmentTouches_eq)
    moreover have "0 \<le> distanceTo lib q ?P" using assms(1) by simp
    ultimately have "0 < distanceTo lib q ?P" by simp
    then show ?thesis using assms(3) False by (simp add: nearestStep_eq Let_def)
  qed
qed

lemma fold_no_touch:
  assumes "\<forall>a b. 0 \<le> distanceTo lib a b"
  shows "\<forall>i \<in> set is. \<not> segmentTouches ar lib q pts i \<Longrightarrow> xless (Fin 0) (minDistance st)
     \<Longrightarrow> xless (Fin 0) (minDistance (foldl (nearestStep ar lib q pts) st is))"
proof (induction "is" arbitrary: st)
  case Nil
  then show ?case by simp
next
  case (Cons i rest)
  have "xless (Fin 0) (minDistance (nearestStep ar lib q pts st i))"
    using step_no_touch [OF assms] Cons.prems by simp
  then show ?case using Cons by simp
qed

lemma step_after_zero:
  assumes "\<forall>a b. 0 \<le> distanceTo lib a b" and "minDistance st = Fin 0"
  shows "nearestStep ar lib q pts st i = st"
proof -
  have "\<not> distanceTo lib q P < 0" for P
    using assms(1) by (simp add: not_less)
  then show ?thesis using assms(2) by (simp add: nearestStep_eq Let_def)
qed

lemma fold_after_zero:
  assumes "\<forall>a b. 0 \<le> distanceTo lib a b" and "minDistance st = Fin 0"
  shows "foldl (nearestStep ar lib q pts) st is = st"
  by (induction "is") (simp_all add: step_after_zero [OF assms])

lemma step_touch:
  assumes "segmentTouches ar lib q pts i" and "xless (Fin 0) (minDistance st)"
  shows "minDistance (nearestStep ar lib q pts st i) = Fin 0
         \<and> closestSegmentIndex (nearestStep ar lib q pts st i) = i
         \<and> closestRatio (nearestStep ar lib q pts st i) = projectionRatio ar q (pts ! i) (pts ! Suc i)"
  using assms by (simp add: nearestStep_eq segmentTouches_eq Let_def)

text \<open>
  The loop returns the first segment that touches the query point: before it the running
  minimum stays above 0, there it becomes 0, and after it nothing is strictly smaller.
\<close>

lemma first_touch:
  assumes nonneg: "\<forall>a b. 0 \<le> distanceTo lib a b"
    and i0: "Suc i0 < length pts" and touch: "segmentTouches ar lib q pts i0"
    and before: "\<forall>i < i0. \<not> segmentTouches ar lib q pts i"
  shows "minDistance (findNearestPointOnTrail ar lib q pts) = Fin 0
         \<and> closestSegmentIndex (findNearestPointOnTrail ar lib q pts) = i0
         \<and> closestRatio (findNearestPointOnTrail ar lib q pts) = projectionRatio ar q (pts ! i0) (pts ! Suc i0)"
proof -
  let ?init = "\<lparr>minDistance = PInf, closestPoint = (if pts = [] then None else Some (pts ! 0)),
                closestSegmentIndex = 0, closestRatio = 0\<rparr>"
  let ?f = "nearestStep ar lib q pts"
  have split: "[0..<length pts - 1] = [0..<i0] @ i0 # [Suc i0..<length pts - 1]"
  proof -
    have less: "i0 < length pts - 1" using i0 by simp
    then obtain k where k: "length pts - 1 = i0 + k"
      using le_Suc_ex [of i0 "length pts - 1"] by auto
    have "[0..<length pts - 1] = [0..<i0] @ [i0..<length pts - 1]"
      unfolding k by (rule upt_add_eq_append) simp
    moreover have "[i0..<length pts - 1] = i0 # [Suc i0..<length pts - 1]"
      using less by (rule upt_conv_Cons)
    ultimately show ?thesis by simp
  qed
  have pre: "xless (Fin 0) (minDistance (foldl ?f ?init [0..<i0]))"
    using before by (intro fold_no_touch [OF nonneg]) simp_all
  let ?hit = "?f (foldl ?f ?init [0..<i0]) i0"
  have hit: "minDistance ?hit = Fin 0 \<and> closestSegmentIndex ?hit = i0
             \<and> closestRatio ?hit = projectionRatio ar q (pts ! i0) (pts ! Suc i0)"
    by (rule step_touch [OF touch pre])
  then have "foldl ?f ?hit [Suc i0..<length pts - 1] = ?hit"
    by (intro fold_after_zero [OF nonneg]) simp
  then have "findNearestPointOnTrail ar lib q pts = ?hit"
    unfolding findNearestPointOnTrail_def split by simp
  then show ?thesis using hit by simp
qed

lemma cumulativeSums_step:
  "Suc i < length pts \<Longrightarrow>
     (t # cumulativeSums ar lib t pts) ! Suc i
       = fadd ar ((t # cumulativeSums ar lib t pts) ! i) (distanceTo lib (pts ! i) (pts ! Suc i))"
proof (induction pts arbitrary: t i)
  case Nil
  then show ?case by simp
next
  case (Cons p rest)
  then obtain q rest' where rest: "rest = q # rest'" by (cases rest) auto
  show ?case
  proof (cases i)
    case 0
    then show ?thesis using rest by simp
  next
    case (Suc j)
    then have "Suc j < length rest" using Cons.prems by simp
    from Cons.IH [OF this, of "fadd ar t (distanceTo lib p q)"]
    show ?thesis using rest Suc by simp
  qed
qed

lemma cumulativeSums_length: "length (cumulativeSums ar lib t pts) = length pts - 1"
  by (induction ar lib t pts rule: cumulativeSums.induct) simp_all

lemma table_step:
  "Suc i < length pts \<Longrightarrow>
     trailCumulativeDistances ar lib pts ! Suc i
       = fadd ar (trailCumulativeDistances ar lib pts ! i) (distanceTo lib (pts ! i) (pts ! Suc i))"
  unfolding trailCumulativeDistances_def by (rule cumulativeSums_step)

lemma table_exact: "cumulativeSums exactArith lib t pts = cumulativeFrom lib t pts"
  by (induction lib t pts rule: cumulativeFrom.induct) (simp_all add: exactArith_def)


lemma roundingArith_identities: "exactIdentities roundingArith"
  by (simp add: exactIdentities_def roundingArith_def)

lemma latlng_eta: "\<lparr>lat = lat p, lng = lng p\<rparr> = (p :: LatLng)"
  by (cases p) simp

lemma ratio_at_start:
  assumes "exactIdentities ar"
  shows "projectionRatio ar p p p2 = 0"
proof -
  define vv where "vv = fadd ar (fmul ar (fsub ar (lng p2) (lng p)) (fsub ar (lng p2) (lng p)))
                               (fmul ar (fsub ar (lat p2) (lat p)) (fsub ar (lat p2) (lat p)))"
  have z: "fsub ar x x = 0" "fmul ar 0 y = 0" "fadd ar 0 x = x" for x y
    using assms by (simp_all add: exactIdentities_def)
  have pos: "0 < tiny ar" using assms by (simp add: exactIdentities_def)
  have d: "x \<noteq> 0 \<Longrightarrow> fdiv ar 0 x = 0" for x
    using assms by (simp add: exactIdentities_def)
  have "(if vv < tiny ar then 0 else fdiv ar 0 vv) = 0"
    using pos d [of vv] by auto
  then have "max 0 (min 1 (if vv < tiny ar then 0 else fdiv ar 0 vv)) = 0" by simp
  then show ?thesis
    unfolding projectionRatio_def Let_def z vv_def [symmetric] .
qed

lemma touches_at_start:
  assumes id: "exactIdentities ar" and refl: "\<forall>a. distanceTo lib a a = 0"
    and "distanceTo lib (pts ! i) (pts ! Suc i) \<noteq> 0"
  shows "segmentTouches ar lib (pts ! i) pts i"
proof -
  have z: "fmul ar 0 y = 0" "fadd ar x 0 = x" for x y
    using id by (simp_all add: exactIdentities_def)
  show ?thesis
    using assms(3) refl
    by (simp add: segmentTouches_eq ratio_at_start [OF id] z latlng_eta)
qed

lemma ratio_at_end:
  assumes id: "exactIdentities ar" and sym: "\<forall>a b. distanceTo lib a b = distanceTo lib b a"
    and touch: "segmentTouches ar lib (pts ! Suc i) pts i"
  shows "projectionRatio ar (pts ! Suc i) (pts ! i) (pts ! Suc i) = 1"
proof -
  let ?p1 = "pts ! i" and ?p2 = "pts ! Suc i"
  define vv where "vv = fadd ar (fmul ar (fsub ar (lng ?p2) (lng ?p1)) (fsub ar (lng ?p2) (lng ?p1)))
                               (fmul ar (fsub ar (lat ?p2) (lat ?p1)) (fsub ar (lat ?p2) (lat ?p1)))"
  have r: "projectionRatio ar ?p2 ?p1 ?p2 = max 0 (min 1 (if vv < tiny ar then 0 else fdiv ar vv vv))"
    unfolding projectionRatio_def Let_def vv_def ..
  have z: "fmul ar 0 y = 0" "fadd ar x 0 = x" for x y
    using id by (simp_all add: exactIdentities_def)
  have pos: "0 < tiny ar" using id by (simp add: exactIdentities_def)
  have d: "x \<noteq> 0 \<Longrightarrow> fdiv ar x x = 1" for x
    using id by (simp add: exactIdentities_def)
  show ?thesis
  proof (cases "vv < tiny ar")
    case True
    then have "projectionRatio ar ?p2 ?p1 ?p2 = 0" using r by simp
    then have "distanceTo lib ?p2 ?p1 = 0"
      using touch by (simp add: segmentTouches_eq z latlng_eta)
    then have "distanceTo lib ?p1 ?p2 = 0" using sym by simp
    then show ?thesis using touch by (simp add: segmentTouches_eq)
  next
    case False
    then have "vv \<noteq> 0" using pos by auto
    then show ?thesis using r False d [of vv] by simp
  qed
qed

text \<open>
  What is returned when some segment touches the vertex: distance 0, and the along-course
  distance of the first touching segment, which is the table's value at the vertex when
  that segment has an endpoint there with the same table value.
\<close>

lemma first_touch_along:
  assumes "exactIdentities ar"
    and "\<forall>a b. 0 \<le> distanceTo lib a b"
    and "\<forall>a b. distanceTo lib a b = distanceTo lib b a"
    and "Suc i0 < length course"
    and "segmentTouches ar lib (course ! v) course i0"
    and "\<forall>j < i0. \<not> segmentTouches ar lib (course ! v) course j"
    and "(course ! Suc i0 = course ! v
            \<and> trailCumulativeDistances ar lib course ! Suc i0 = trailCumulativeDistances ar lib course ! v)
         \<or> (course ! i0 = course ! v
            \<and> trailCumulativeDistances ar lib course ! i0 = trailCumulativeDistances ar lib course ! v)"
  shows "minDistance (findNearestPointOnTrail ar lib (course ! v) course) = Fin 0
       \<and> calculateDistanceAlongTrail ar lib
            (closestSegmentIndex (findNearestPointOnTrail ar lib (course ! v) course))
            (closestRatio (findNearestPointOnTrail ar lib (course ! v) course))
            course (trailCumulativeDistances ar lib course)
          = Some (trailCumulativeDistances ar lib course ! v)"
proof -
  let ?q = "course ! v" and ?table = "trailCumulativeDistances ar lib course"
  let ?r = "findNearestPointOnTrail ar lib ?q course"
  let ?len = "distanceTo lib (course ! i0) (course ! Suc i0)"
  have found: "minDistance ?r = Fin 0" "closestSegmentIndex ?r = i0"
    "closestRatio ?r = projectionRatio ar ?q (course ! i0) (course ! Suc i0)"
    using first_touch [OF assms(2,4,5,6)] by simp_all
  have z: "fmul ar 0 y = 0" "fmul ar 1 y = y" "fadd ar x 0 = x" for x y
    using assms(1) by (simp_all add: exactIdentities_def)
  have len: "length ?table = length course"
    using assms(4) by (simp add: trailCumulativeDistances_def cumulativeSums_length)
  have along: "calculateDistanceAlongTrail ar lib (closestSegmentIndex ?r) (closestRatio ?r) course ?table
                 = Some (fadd ar (?table ! i0) (fmul ar (closestRatio ?r) ?len))"
    using assms(4) len found(2) by (simp add: calculateDistanceAlongTrail_def Let_def)
  have "fadd ar (?table ! i0) (fmul ar (closestRatio ?r) ?len) = ?table ! v"
    using assms(7)
  proof
    assume e: "course ! Suc i0 = course ! v \<and> ?table ! Suc i0 = ?table ! v"
    then have "segmentTouches ar lib (course ! Suc i0) course i0" using assms(5) by simp
    then have "projectionRatio ar (course ! Suc i0) (course ! i0) (course ! Suc i0) = 1"
      by (rule ratio_at_end [OF assms(1,3)])
    then have "closestRatio ?r = 1" using found(3) e by simp
    then show ?thesis using table_step [OF assms(4), of ar lib] e by (simp add: z)
  next
    assume s: "course ! i0 = course ! v \<and> ?table ! i0 = ?table ! v"
    then have "closestRatio ?r = 0"
      using found(3) ratio_at_start [OF assms(1), of "course ! i0" "course ! Suc i0"] by simp
    then show ?thesis using s by (simp add: z)
  qed
  then show ?thesis using found(1) along by simp
qed





text \<open>When every segment has length zero the loop skips them all and the distance stays infinite.\<close>

lemma projection_without_segments:
  "minDistance (findNearestPointOnTrail exactArith flatLib \<lparr>lat = 0, lng = 0\<rparr>
       [\<lparr>lat = 0, lng = 0\<rparr>, \<lparr>lat = 0, lng = 0\<rparr>]) = PInf"
  by code_simp

text \<open>
  At the last vertex of a course the only segment that can touch is the one ending there,
  and whether it does depends on the rounding: with the longitudes 0.1 and 0.001 exact
  arithmetic gives distance 0, and an arithmetic whose sum is off by \<open>1e-18\<close> gives
  \<open>1e-13\<close> m.
\<close>

lemma projection_of_last_vertex_rounded:
  "exactIdentities roundingArith
   \<and> minDistance (findNearestPointOnTrail roundingArith flatLib (twoPoints ! 1) twoPoints)
       = Fin (1 / 10 ^ 13)
   \<and> minDistance (findNearestPointOnTrail exactArith flatLib (twoPoints ! 1) twoPoints) = Fin 0"
proof -
  have "minDistance (findNearestPointOnTrail roundingArith flatLib (twoPoints ! 1) twoPoints)
       = Fin (1 / 10 ^ 13)"
    by code_simp
  moreover have "minDistance (findNearestPointOnTrail exactArith flatLib (twoPoints ! 1) twoPoints) = Fin 0"
    by code_simp
  ultimately show ?thesis using roundingArith_identities by simp
qed

text \<open>
  A vertex that is not the last one, with a following segment of non-zero length and no
  touching segment before the one that ends at it, is always found, whatever the
  rounding: on the segment ending at it when that one touches, else on the one starting
  at it.
\<close>

lemma vertex_before_finish:
  assumes id: "exactIdentities ar"
    and nonneg: "\<forall>a b. 0 \<le> distanceTo lib a b"
    and refl: "\<forall>a. distanceTo lib a a = 0"
    and sym: "\<forall>a b. distanceTo lib a b = distanceTo lib b a"
    and v: "Suc v < length course"
    and nextseg: "distanceTo lib (course ! v) (course ! Suc v) \<noteq> 0"
    and early: "\<forall>i. Suc i < v \<longrightarrow> \<not> segmentTouches ar lib (course ! v) course i"
  shows "minDistance (findNearestPointOnTrail ar lib (course ! v) course) = Fin 0
       \<and> calculateDistanceAlongTrail ar lib
            (closestSegmentIndex (findNearestPointOnTrail ar lib (course ! v) course))
            (closestRatio (findNearestPointOnTrail ar lib (course ! v) course))
            course (trailCumulativeDistances ar lib course)
          = Some (trailCumulativeDistances ar lib course ! v)"
proof -
  have here: "segmentTouches ar lib (course ! v) course v"
    using nextseg by (intro touches_at_start [OF id refl]) simp
  show ?thesis
  proof (cases "0 < v \<and> segmentTouches ar lib (course ! v) course (v - 1)")
    case True
    then obtain u where u: "v = Suc u" by (cases v) auto
    have "Suc u < length course" using v u by simp
    moreover have "segmentTouches ar lib (course ! v) course u" using True u by simp
    moreover have "\<forall>j < u. \<not> segmentTouches ar lib (course ! v) course j"
      using early u by simp
    moreover have "(course ! Suc u = course ! v
            \<and> trailCumulativeDistances ar lib course ! Suc u = trailCumulativeDistances ar lib course ! v)
         \<or> (course ! u = course ! v
            \<and> trailCumulativeDistances ar lib course ! u = trailCumulativeDistances ar lib course ! v)"
      using u by simp
    ultimately show ?thesis by (rule first_touch_along [OF id nonneg sym])
  next
    case False
    have before: "\<forall>j < v. \<not> segmentTouches ar lib (course ! v) course j"
    proof (intro allI impI)
      fix j assume j: "j < v"
      show "\<not> segmentTouches ar lib (course ! v) course j"
      proof (cases "Suc j < v")
        case True
        then show ?thesis using early by simp
      next
        case False
        then have "j = v - 1" "0 < v" using j by auto
        then show ?thesis using \<open>\<not> (0 < v \<and> segmentTouches ar lib (course ! v) course (v - 1))\<close> by simp
      qed
    qed
    have "(course ! Suc v = course ! v
            \<and> trailCumulativeDistances ar lib course ! Suc v = trailCumulativeDistances ar lib course ! v)
         \<or> (course ! v = course ! v
            \<and> trailCumulativeDistances ar lib course ! v = trailCumulativeDistances ar lib course ! v)"
      by simp
    then show ?thesis by (rule first_touch_along [OF id nonneg sym v here before])
  qed
qed

end
